theory Spec2Isabelle
  imports Main "HOL-Library.Sublist"
begin

section \<open>JavaScript values used by the assembly engine\<close>

text \<open>
  The component assembly of \<^verbatim>\<open>index.js\<close> works on plain JavaScript objects.  A
  property that may be missing is an \<open>option\<close>; a property read in a condition
  (\<^verbatim>\<open>if (pkg._shasum)\<close>, \<^verbatim>\<open>a || b\<close>) is tested for truthiness, and for a string that
  means: present and not the empty string.
\<close>

definition truthy :: "string option \<Rightarrow> bool" where
  "truthy v = (case v of None \<Rightarrow> False | Some s \<Rightarrow> s \<noteq> [])"

text \<open>\<^verbatim>\<open>a || b\<close> on two optional strings.\<close>

definition js_or :: "string option \<Rightarrow> string option \<Rightarrow> string option" where
  "js_or a b = (if truthy a then a else b)"

text \<open>The exceptions a call can end with.  \<open>OutOfFuel\<close> is not one of them: it is the
  answer of a walk that was given too few steps to finish.\<close>

datatype error = OutOfFuel | InvalidPurl | TypeError | DanglingRef

datatype format = Xml | Json

section \<open>Package records\<close>

text \<open>
  Package records are objects that refer to each other: \<^verbatim>\<open>read-installed\<close> links a
  dependency to the record of an ancestor when that is where it resolves, so the
  object graph can have shared nodes and cycles.  The records live in a store (a list,
  addressed by position) and a \<^verbatim>\<open>dependencies\<close> entry is either a string or the address
  of a record.  The entries are listed in the order of \<^verbatim>\<open>Object.keys\<close>.
\<close>

type_synonym ref = nat

datatype dep = DepString string | DepRecord ref

text \<open>
  \<open>pkg_license\<close> stands for everything \<^verbatim>\<open>utils.getLicenses\<close> reads from the record (the
  type \<open>'l\<close> holds both what it reads and the license list it returns);
  \<open>pkg_bugs_url\<close> is \<^verbatim>\<open>pkg.bugs && pkg.bugs.url\<close> and \<open>pkg_repository_url\<close> is
  \<^verbatim>\<open>pkg.repository && pkg.repository.url\<close>.  \<open>pkg_keywords\<close> is \<open>None\<close> when the record
  has no own property \<^verbatim>\<open>keywords\<close>.
\<close>

record 'l pkg =
  pkg_name :: string
  pkg_group :: "string option"
  pkg_version :: "string option"
  pkg_extraneous :: bool
  pkg_scope :: "string option"
  pkg_qualifiers :: "(string \<times> string) list option"
  pkg_subpath :: "string option"
  pkg_shasum :: "string option"
  pkg_integrity :: "string option"
  pkg_homepage :: "string option"
  pkg_bugs_url :: "string option"
  pkg_repository_url :: "string option"
  pkg_keywords :: "string list option"
  pkg_description :: "string option"
  pkg_license :: 'l
  pkg_dependencies :: "(string \<times> dep) list option"

type_synonym 'l store = "'l pkg list"

section \<open>Components\<close>

text \<open>
  The two encodings differ in the spelling of keys: a hash is
  \<^verbatim>\<open>{hash: {"@alg": a, "#text": h}}\<close> for XML and \<^verbatim>\<open>{alg: a, content: h}\<close> for JSON, an
  external reference is \<^verbatim>\<open>{reference: {"@type": t, url: u}}\<close> or \<^verbatim>\<open>{type: t, url: u}\<close>,
  and the description is wrapped in \<^verbatim>\<open>{"#cdata": d}\<close> for XML.
\<close>

datatype hash_entry = HashXml string string | HashJson string string

datatype ext_ref = RefXml string string | RefJson string string

datatype description = Cdata "string option" | Plain "string option"

text \<open>\<open>c_shape\<close> records which spelling the keys \<^verbatim>\<open>type\<close> and \<^verbatim>\<open>bom-ref\<close> have
  (\<^verbatim>\<open>@type\<close>, \<^verbatim>\<open>@bom-ref\<close> for XML).  A field that is an \<open>option\<close> can be absent from
  the object.\<close>

record 'l component =
  c_group :: string
  c_name :: string
  c_version :: "string option"
  c_hashes :: "hash_entry list option"
  c_licenses :: 'l
  c_purl :: string
  c_externalReferences :: "ext_ref list option"
  c_scope :: "string option"
  c_shape :: format
  c_type :: string
  c_bom_ref :: string
  c_description :: description

section \<open>Collaborators\<close>

text \<open>
  Code the assembly calls and that is not part of \<^verbatim>\<open>index.js\<close>: the npm packages
  \<^verbatim>\<open>parse-packagejson-name\<close> and \<^verbatim>\<open>ssri\<close>, \<^verbatim>\<open>utils.getLicenses\<close>, \<^verbatim>\<open>path.join\<close> and the
  two values read from the tool's own \<^verbatim>\<open>package.json\<close>.  They are parameters of the
  model, and every theorem holds for whatever they compute.

  \<open>ssri_parse\<close> gives \<open>None\<close> where \<^verbatim>\<open>ssri.parse\<close> gives a falsy value; otherwise the
  integrity object, read as the map from a property name such as \<^verbatim>\<open>sha512\<close> to the
  \<^verbatim>\<open>digest\<close> of the first entry of that property (\<^verbatim>\<open>integrity.sha512[0].digest\<close>).
\<close>

record pkg_identifier =
  id_scope :: "string option"
  id_fullName :: "string option"

record 'l externals =
  parsePackageJsonName :: "string \<Rightarrow> pkg_identifier"
  getLicenses :: "'l \<Rightarrow> format \<Rightarrow> 'l"
  ssri_parse :: "string \<Rightarrow> (string \<Rightarrow> string option) option"
  pathJoin :: "string \<Rightarrow> string \<Rightarrow> string"
  selfPjson_version :: string
  selfPjson_author :: string

section \<open>Hashes\<close>

subsection \<open>The CycloneDX hash pattern\<close>

text \<open>
  \<^verbatim>\<open>HASH_PATTERN\<close> is
  \<^verbatim>\<open>^([a-fA-F0-9]{32}|[a-fA-F0-9]{40}|[a-fA-F0-9]{64}|[a-fA-F0-9]{96}|[a-fA-F0-9]{128})$\<close>.
\<close>

definition hex_char :: "char \<Rightarrow> bool" where
  "hex_char c = (c \<in> set ''0123456789abcdefABCDEF'')"

definition HASH_PATTERN :: "string \<Rightarrow> bool" where
  "HASH_PATTERN s = (list_all hex_char s \<and> length s \<in> set [32, 40, 64, 96, 128])"

subsection \<open>Buffers: base64 and hex\<close>

text \<open>
  \<^verbatim>\<open>Buffer.from(s, "base64")\<close> reads the standard and the URL-safe alphabet, skips every
  other character and stops at the first padding character.  A byte is a \<open>nat\<close> below
  256, a base64 digit a \<open>nat\<close> below 64.
\<close>

definition b64_alphabet :: string where
  "b64_alphabet = ''ABCDEFGHIJKLMNOPQRSTUVWXYZabcdefghijklmnopqrstuvwxyz0123456789+/''"

fun index_of :: "'a \<Rightarrow> 'a list \<Rightarrow> nat option" where
  "index_of x [] = None"
| "index_of x (y # ys) =
     (if x = y then Some 0 else map_option Suc (index_of x ys))"

definition unbase64 :: "char \<Rightarrow> nat option" where
  "unbase64 c =
     (if c = CHR ''-'' then Some 62
      else if c = CHR ''_'' then Some 63
      else index_of c b64_alphabet)"

fun b64_digits :: "string \<Rightarrow> nat list" where
  "b64_digits [] = []"
| "b64_digits (c # cs) =
     (if c = CHR ''='' then []
      else (case unbase64 c of
              None \<Rightarrow> b64_digits cs
            | Some d \<Rightarrow> d # b64_digits cs))"

fun b64_bytes :: "nat list \<Rightarrow> nat list" where
  "b64_bytes (a # b # c # d # ds) =
     (a * 4 + b div 16) # ((b mod 16) * 16 + c div 4) # ((c mod 4) * 64 + d) # b64_bytes ds"
| "b64_bytes [a, b, c] = [a * 4 + b div 16, (b mod 16) * 16 + c div 4]"
| "b64_bytes [a, b] = [a * 4 + b div 16]"
| "b64_bytes _ = []"

text \<open>\<^verbatim>\<open>Buffer.from(s, "base64")\<close>.\<close>

definition from_base64 :: "string \<Rightarrow> nat list" where
  "from_base64 s = b64_bytes (b64_digits s)"

definition b64_char :: "nat \<Rightarrow> char" where
  "b64_char d = b64_alphabet ! (d mod 64)"

text \<open>\<^verbatim>\<open>buf.toString("base64")\<close>: the standard alphabet, padded to a multiple of four.\<close>

fun to_base64 :: "nat list \<Rightarrow> string" where
  "to_base64 (x # y # z # bs) =
     b64_char (x div 4) # b64_char ((x mod 4) * 16 + y div 16)
       # b64_char ((y mod 16) * 4 + z div 64) # b64_char (z mod 64) # to_base64 bs"
| "to_base64 [x, y] =
     [b64_char (x div 4), b64_char ((x mod 4) * 16 + y div 16),
      b64_char ((y mod 16) * 4), CHR ''='']"
| "to_base64 [x] =
     [b64_char (x div 4), b64_char ((x mod 4) * 16), CHR ''='', CHR ''='']"
| "to_base64 [] = []"

definition hex_digit :: "nat \<Rightarrow> char" where
  "hex_digit d = ''0123456789abcdef'' ! (d mod 16)"

text \<open>\<^verbatim>\<open>buf.toString("hex")\<close>: two lowercase digits for each byte.\<close>

definition to_hex :: "nat list \<Rightarrow> string" where
  "to_hex bs = concat (map (\<lambda>b. [hex_digit (b div 16), hex_digit b]) bs)"

subsection \<open>addComponentHash and processHashes\<close>

definition hash_object :: "format \<Rightarrow> string \<Rightarrow> string \<Rightarrow> hash_entry" where
  "hash_object fmt alg h = (case fmt of Json \<Rightarrow> HashJson alg h | Xml \<Rightarrow> HashXml alg h)"

text \<open>\<^verbatim>\<open>component.hashes.push(x)\<close> throws a \<^verbatim>\<open>TypeError\<close> when the component has no
  \<^verbatim>\<open>hashes\<close>.\<close>

definition push_hash :: "hash_entry \<Rightarrow> 'l component \<Rightarrow> error + 'l component" where
  "push_hash x component =
     (case c_hashes component of
        None \<Rightarrow> Inl TypeError
      | Some hs \<Rightarrow> Inr (component\<lparr>c_hashes := Some (hs @ [x])\<rparr>))"

text \<open>The value \<^verbatim>\<open>hash\<close> that \<^verbatim>\<open>addComponentHash\<close> computes from the digest.\<close>

definition isBase64Encoded :: "string \<Rightarrow> bool" where
  "isBase64Encoded digest = (to_base64 (from_base64 digest) = digest)"

definition hash_of_digest :: "string \<Rightarrow> string" where
  "hash_of_digest digest =
     (if HASH_PATTERN digest then digest
      else if isBase64Encoded digest then to_hex (from_base64 digest)
      else digest)"

definition addComponentHash ::
  "string \<Rightarrow> string \<Rightarrow> 'l component \<Rightarrow> format \<Rightarrow> error + 'l component" where
  "addComponentHash alg digest component fmt =
     push_hash (hash_object fmt alg (hash_of_digest digest)) component"

text \<open>One of the four \<^verbatim>\<open>if (integrity.hasOwnProperty(p))\<close> statements of
  \<^verbatim>\<open>processHashes\<close>, run on the result of the statements before it.\<close>

definition add_if_present ::
  "(string \<Rightarrow> string option) \<Rightarrow> string \<Rightarrow> string \<Rightarrow> format
     \<Rightarrow> error + 'l component \<Rightarrow> error + 'l component" where
  "add_if_present integrity prop alg fmt r =
     (case r of
        Inl e \<Rightarrow> Inl e
      | Inr component \<Rightarrow>
          (case integrity prop of
             None \<Rightarrow> Inr component
           | Some digest \<Rightarrow> addComponentHash alg digest component fmt))"

text \<open>The last statement of \<^verbatim>\<open>processHashes\<close>: \<^verbatim>\<open>component.hashes.length\<close> throws when
  there is no \<^verbatim>\<open>hashes\<close>, and an empty \<^verbatim>\<open>hashes\<close> is deleted.\<close>

definition delete_empty_hashes :: "'l component \<Rightarrow> error + 'l component" where
  "delete_empty_hashes component =
     (case c_hashes component of
        None \<Rightarrow> Inl TypeError
      | Some hs \<Rightarrow> Inr (if hs = [] then component\<lparr>c_hashes := None\<rparr> else component))"

definition processHashes ::
  "'l externals \<Rightarrow> 'l pkg \<Rightarrow> 'l component \<Rightarrow> format
     \<Rightarrow> error + 'l component" where
  "processHashes E pkg component fmt =
     (case
        (if truthy (pkg_shasum pkg) then
           push_hash (hash_object fmt ''SHA-1'' (the (pkg_shasum pkg))) component
         else if truthy (pkg_integrity pkg) then
           (let integrity =
                  (case ssri_parse E (the (pkg_integrity pkg)) of
                     None \<Rightarrow> (\<lambda>_. None)
                   | Some i \<Rightarrow> i)
            in add_if_present integrity ''sha1'' ''SHA-1'' fmt
                (add_if_present integrity ''sha256'' ''SHA-256'' fmt
                  (add_if_present integrity ''sha384'' ''SHA-384'' fmt
                    (add_if_present integrity ''sha512'' ''SHA-512'' fmt (Inr component)))))
         else Inr component)
      of Inl e \<Rightarrow> Inl e
       | Inr c \<Rightarrow> delete_empty_hashes c)"

section \<open>Building one component\<close>

text \<open>\<^verbatim>\<open>addExternalReferences(pkg, format)\<close>.\<close>

definition ext_ref_object :: "format \<Rightarrow> string \<Rightarrow> string \<Rightarrow> ext_ref" where
  "ext_ref_object fmt t url = (case fmt of Xml \<Rightarrow> RefXml t url | Json \<Rightarrow> RefJson t url)"

definition addExternalReferences :: "'l pkg \<Rightarrow> format \<Rightarrow> ext_ref list" where
  "addExternalReferences pkg fmt =
     (if truthy (pkg_homepage pkg)
        then [ext_ref_object fmt ''website'' (the (pkg_homepage pkg))] else [])
     @ (if truthy (pkg_bugs_url pkg)
        then [ext_ref_object fmt ''issue-tracker'' (the (pkg_bugs_url pkg))] else [])
     @ (if truthy (pkg_repository_url pkg)
        then [ext_ref_object fmt ''vcs'' (the (pkg_repository_url pkg))] else [])"

text \<open>\<^verbatim>\<open>keyword.toLowerCase()\<close>, on the ASCII letters.\<close>

definition lower_char :: "char \<Rightarrow> char" where
  "lower_char c =
     (let n = (of_char c :: nat) in if 65 \<le> n \<and> n \<le> 90 then char_of (n + 32) else c)"

definition toLowerCase :: "string \<Rightarrow> string" where
  "toLowerCase s = map lower_char s"

definition determinePackageType :: "'l pkg \<Rightarrow> string" where
  "determinePackageType pkg =
     (case pkg_keywords pkg of
        None \<Rightarrow> ''library''
      | Some keywords \<Rightarrow>
          (if list_ex (\<lambda>keyword. toLowerCase keyword = ''framework'') keywords
           then ''framework'' else ''library''))"

text \<open>
  Modelled from the spec: the package URL that \<^verbatim>\<open>new PackageURL(...).toString()\<close> of
  \<^verbatim>\<open>packageurl-js\<close> builds and \<^verbatim>\<open>decodeURIComponent\<close> decodes again,
  \<^verbatim>\<open>pkg:<ecosystem>/<group>/<name>@<version>?<qualifiers>#<subpath>\<close>, each part present
  when its value is truthy.  The constructor throws when the type or the name is empty.
  The qualifiers are listed in the order the library prints them.
\<close>

fun join_with :: "string \<Rightarrow> string list \<Rightarrow> string" where
  "join_with sep [] = []"
| "join_with sep [x] = x"
| "join_with sep (x # y # ys) = x @ sep @ join_with sep (y # ys)"

definition purl_tail ::
  "string \<Rightarrow> string \<Rightarrow> string \<Rightarrow> string option \<Rightarrow> (string \<times> string) list option
     \<Rightarrow> string option \<Rightarrow> string" where
  "purl_tail ptype grp name version qualifiers subpath =
     ptype @ ''/'' @ (if grp \<noteq> [] then grp @ ''/'' else [])
       @ name
       @ (if truthy version then ''@'' @ the version else [])
       @ (case qualifiers of
            None \<Rightarrow> []
          | Some qs \<Rightarrow> ''?'' @ join_with ''&'' (map (\<lambda>(k, v). k @ ''='' @ v) qs))
       @ (if truthy subpath then ''#'' @ the subpath else [])"

definition purl_string ::
  "string \<Rightarrow> string \<Rightarrow> string \<Rightarrow> string option \<Rightarrow> (string \<times> string) list option
     \<Rightarrow> string option \<Rightarrow> error + string" where
  "purl_string ptype grp name version qualifiers subpath =
     (if ptype = [] \<or> name = [] then Inl InvalidPurl
      else Inr (''pkg:'' @ purl_tail ptype grp name version qualifiers subpath))"

text \<open>The local variables \<^verbatim>\<open>group\<close> and \<^verbatim>\<open>name\<close> of \<^verbatim>\<open>addComponent\<close>:
  \<^verbatim>\<open>group = pkg.group || pkgIdentifier.scope; group = group || ""\<close> and
  \<^verbatim>\<open>name = pkgIdentifier.fullName || pkg.name\<close>.\<close>

definition group_of :: "'l externals \<Rightarrow> 'l pkg \<Rightarrow> string" where
  "group_of E pkg =
     (let grp = js_or (pkg_group pkg) (id_scope (parsePackageJsonName E (pkg_name pkg)))
      in if truthy grp then the grp else [])"

definition name_of :: "'l externals \<Rightarrow> 'l pkg \<Rightarrow> string" where
  "name_of E pkg =
     (let fullName = id_fullName (parsePackageJsonName E (pkg_name pkg))
      in if truthy fullName then the fullName else pkg_name pkg)"

text \<open>The test \<^verbatim>\<open>ptype == "npm" && (group === "types" || name.startsWith("@types"))\<close>.\<close>

definition skip_types :: "'l externals \<Rightarrow> string \<Rightarrow> 'l pkg \<Rightarrow> bool" where
  "skip_types E ptype pkg =
     (ptype = ''npm'' \<and> (group_of E pkg = ''types'' \<or> prefix ''@types'' (name_of E pkg)))"

text \<open>The import-usage map: the names of the imported packages with their counts.
  \<open>None\<close> is a falsy \<^verbatim>\<open>allImports\<close>.\<close>

type_synonym import_map = "(string \<times> nat) list"

text \<open>The five keys \<^verbatim>\<open>impPkgs.includes\<close> is asked for.\<close>

definition import_keys :: "string \<Rightarrow> string \<Rightarrow> string list" where
  "import_keys grp name =
     [name, grp @ ''/'' @ name, ''@'' @ grp @ ''/'' @ name, grp, ''@'' @ grp]"

text \<open>The variable \<^verbatim>\<open>compScope\<close> after the \<^verbatim>\<open>if (allImports)\<close> statement.\<close>

definition compScope :: "import_map option \<Rightarrow> string \<Rightarrow> string \<Rightarrow> string option \<Rightarrow> string option" where
  "compScope allImports grp name scope =
     (case allImports of
        None \<Rightarrow> scope
      | Some imps \<Rightarrow>
          (let impPkgs = map fst imps in
           if list_ex (\<lambda>k. k \<in> set impPkgs) (import_keys grp name) then Some ''required''
           else if impPkgs \<noteq> [] then Some ''optional''
           else scope))"

text \<open>
  Lines 194 to 259 of \<^verbatim>\<open>addComponent\<close>: what a record that is not the root turns
  into.  \<open>Inr None\<close> is the \<^verbatim>\<open>return\<close> for an \<^verbatim>\<open>@types\<close> package, \<open>Inl\<close> an exception.
\<close>

definition component_of :: 
  "'l externals \<Rightarrow> import_map option \<Rightarrow> 'l pkg \<Rightarrow> string \<Rightarrow> format \<Rightarrow> error + 'l component option" where
  "component_of E allImports pkg ptype fmt =
     (let grp = group_of E pkg; name = name_of E pkg in
      if skip_types E ptype pkg then Inr None
      else
        (case purl_string ptype grp name (pkg_version pkg) (pkg_qualifiers pkg)
                (pkg_subpath pkg) of
           Inl e \<Rightarrow> Inl e
         | Inr purlString \<Rightarrow>
             (let refs = addExternalReferences pkg fmt;
                  scope = compScope allImports grp name (pkg_scope pkg);
                  component =
                    \<lparr> c_group = grp, c_name = name, c_version = pkg_version pkg,
                      c_hashes = Some [], c_licenses = getLicenses E (pkg_license pkg) fmt,
                      c_purl = purlString,
                      c_externalReferences = (if refs = [] then None else Some refs),
                      c_scope = (if truthy scope then scope else None),
                      c_shape = fmt, c_type = determinePackageType pkg,
                      c_bom_ref = purlString,
                      c_description =
                        (case fmt of Xml \<Rightarrow> Cdata (pkg_description pkg)
                                   | Json \<Rightarrow> Plain (pkg_description pkg)) \<rparr>
              in map_sum id Some (processHashes E pkg component fmt))))"

section \<open>The walk\<close>

text \<open>
  The variable \<^verbatim>\<open>list\<close> is an object used as a map from the package URL to the
  component.  Its keys all start with \<^verbatim>\<open>pkg:\<close>: none of them is a property that an
  empty object inherits, and \<^verbatim>\<open>Object.keys\<close> lists them in the order they were added.
  The map is an association list that grows at its end, and \<^verbatim>\<open>list[k]\<close> is truthy
  exactly when \<open>k\<close> is one of its keys.
\<close>

type_synonym 'l clist = "(string \<times> 'l component) list"

definition has_key :: "'l clist \<Rightarrow> string \<Rightarrow> bool" where
  "has_key list k = (k \<in> fst ` set list)"

text \<open>The records among the values of \<^verbatim>\<open>pkg.dependencies\<close>: the strings are filtered
  out.\<close>

fun records_of :: "(string \<times> dep) list \<Rightarrow> ref list" where
  "records_of [] = []"
| "records_of ((k, DepString s) # ds) = records_of ds"
| "records_of ((k, DepRecord r) # ds) = r # records_of ds"

text \<open>Calling \<open>f\<close> on each record in turn, each call working on the list the call
  before it left; an exception ends the loop.\<close>

fun for_each :: "(ref \<Rightarrow> 'a \<Rightarrow> error + 'a) \<Rightarrow> ref list \<Rightarrow> 'a \<Rightarrow> error + 'a" where
  "for_each f [] list = Inr list"
| "for_each f (r # rs) list =
     (case f r list of Inl e \<Rightarrow> Inl e | Inr list' \<Rightarrow> for_each f rs list')"

text \<open>
  \<^verbatim>\<open>addComponent(allImports, pkg, ptype, list, isRootPkg, format)\<close>.  The record is given by
  its address in the store, the list is returned.  The first argument bounds the depth
  of the recursion, which the JavaScript does not: a walk that would go deeper answers
  \<open>OutOfFuel\<close>.  An address outside the store, which no JavaScript object can hold,
  answers \<open>DanglingRef\<close>.
\<close>

fun addComponent ::
  "nat \<Rightarrow> 'l externals \<Rightarrow> 'l store \<Rightarrow> import_map option \<Rightarrow> ref \<Rightarrow> string \<Rightarrow> 'l clist \<Rightarrow> bool
     \<Rightarrow> format \<Rightarrow> error + 'l clist" where
  "addComponent 0 E h allImports r ptype list isRootPkg fmt = Inl OutOfFuel"
| "addComponent (Suc n) E h allImports r ptype list isRootPkg fmt =
     (if r \<ge> length h then Inl DanglingRef
      else
        (let pkg = h ! r;
             dependencies = (\<lambda>list.
               (case pkg_dependencies pkg of
                  None \<Rightarrow> Inr list
                | Some ds \<Rightarrow>
                    for_each (\<lambda>x list. addComponent n E h allImports x ptype list False fmt)
                      (records_of ds) list))
         in
         if pkg_extraneous pkg then Inr list
         else if \<not> isRootPkg then
           (case component_of E allImports pkg ptype fmt of
              Inl e \<Rightarrow> Inl e
            | Inr None \<Rightarrow> Inr list
            | Inr (Some component) \<Rightarrow>
                if has_key list (c_purl component) then Inr list
                else dependencies (list @ [(c_purl component, component)]))
         else dependencies list))"

text \<open>\<^verbatim>\<open>listComponents(allImports, pkg, ptype, format)\<close>: \<^verbatim>\<open>pkg\<close> is an array of records or
  one record, and the XML list wraps each component in \<^verbatim>\<open>{component: c}\<close>.\<close>

datatype pkg_arg = PkgArray "ref list" | PkgObject ref

datatype 'l item = Wrapped "'l component" | Bare "'l component"

fun item_component :: "'l item \<Rightarrow> 'l component" where
  "item_component (Wrapped c) = c"
| "item_component (Bare c) = c"

text \<open>The first half of \<^verbatim>\<open>listComponents\<close>: the object \<^verbatim>\<open>list\<close> after the calls of
  \<^verbatim>\<open>addComponent\<close>.\<close>

definition walk ::
  "nat \<Rightarrow> 'l externals \<Rightarrow> 'l store \<Rightarrow> import_map option \<Rightarrow> pkg_arg \<Rightarrow> string \<Rightarrow> format
     \<Rightarrow> error + 'l clist" where
  "walk n E h allImports pkg ptype fmt =
     (let isRootPkg = (ptype = ''npm'') in
      case pkg of
        PkgArray ps \<Rightarrow>
          for_each (\<lambda>p list. addComponent n E h allImports p ptype list False fmt) ps []
      | PkgObject r \<Rightarrow> addComponent n E h allImports r ptype [] isRootPkg fmt)"

definition listComponents ::
  "nat \<Rightarrow> 'l externals \<Rightarrow> 'l store \<Rightarrow> import_map option \<Rightarrow> pkg_arg \<Rightarrow> string \<Rightarrow> format
     \<Rightarrow> error + 'l item list" where
  "listComponents n E h allImports pkg ptype fmt =
     map_sum id
       (map (\<lambda>(k, c). case fmt of Xml \<Rightarrow> Wrapped c | Json \<Rightarrow> Bare c))
       (walk n E h allImports pkg ptype fmt)"

section \<open>The BOM\<close>

text \<open>\<^verbatim>\<open>addGlobalReferences(src, filename)\<close>: two entries
  \<^verbatim>\<open>{reference: {"@type": "other", url: u, comment: c}}\<close>.\<close>

record global_ref =
  g_url :: string
  g_comment :: string

definition addGlobalReferences :: "'l externals \<Rightarrow> string \<Rightarrow> string \<Rightarrow> global_ref list" where
  "addGlobalReferences E src filename =
     [\<lparr> g_url = src, g_comment = ''Base path'' \<rparr>,
      \<lparr> g_url = (if \<not> sublist src filename then pathJoin E src filename else filename),
        g_comment = ''Package file'' \<rparr>]"

text \<open>What one run reads from outside: the value \<^verbatim>\<open>uuidv4()\<close> returns and the value
  \<^verbatim>\<open>new Date().toISOString()\<close> would return.\<close>

record environment =
  env_uuidv4 :: string
  env_now :: string

record metadata =
  m_timestamp :: string
  m_tool_vendor :: string
  m_tool_name :: string
  m_tool_version :: string
  m_author_name :: string
  m_author_email :: string

definition addMetadata :: "'l externals \<Rightarrow> environment \<Rightarrow> bool \<Rightarrow> metadata" where
  "addMetadata E env deterministicForTests =
     \<lparr> m_timestamp =
         (if deterministicForTests then ''2022-06-03T09:34:10.062Z'' else env_now env),
       m_tool_vendor = ''AppThreat'', m_tool_name = ''cdxgen'',
       m_tool_version = selfPjson_version E,
       m_author_name = selfPjson_author E, m_author_email = ''cloud@appthreat.com'' \<rparr>"

text \<open>
  The two documents \<^verbatim>\<open>buildBomString\<close> hands to its callback, before they are printed:
  the element tree that \<^verbatim>\<open>bom.end(...)\<close> prints as XML (an attribute that was not set
  is \<open>None\<close>) and the object \<^verbatim>\<open>jsonTpl\<close> that \<^verbatim>\<open>JSON.stringify\<close> prints.
\<close>

record 'l xml_bom =
  x_xmlns :: string
  x_serialNumber :: "string option"
  x_version :: nat
  x_externalReferences :: "global_ref list option"
  x_metadata :: metadata
  x_components :: "'l item list"

record 'l json_bom =
  j_bomFormat :: string
  j_specVersion :: string
  j_serialNumber :: string
  j_version :: nat
  j_metadata :: metadata
  j_components :: "'l item list"

type_synonym ns_mapping = "(string \<times> string list) list"

record bom_context =
  ctx_src :: "string option"
  ctx_filename :: "string option"
  ctx_allImports :: "import_map option"
  ctx_nsMapping :: "ns_mapping option"

text \<open>The call of the callback: \<^verbatim>\<open>callback()\<close> or
  \<^verbatim>\<open>callback(null, bomString, JSON.stringify(jsonTpl, null, 2), nsMapping)\<close>.\<close>

datatype 'l callback = NoArguments | Bom "'l xml_bom" "'l json_bom" ns_mapping

text \<open>
  \<^verbatim>\<open>buildBomString({deterministicForTests, pkgInfo, ptype, context}, callback)\<close>.  A missing
  \<^verbatim>\<open>context\<close> makes \<^verbatim>\<open>context.nsMapping\<close> throw before the callback is reached.
\<close>

definition buildBomString ::
  "nat \<Rightarrow> 'l externals \<Rightarrow> environment \<Rightarrow> 'l store \<Rightarrow> bool \<Rightarrow> pkg_arg \<Rightarrow> string
     \<Rightarrow> bom_context option \<Rightarrow> error + 'l callback" where
  "buildBomString n E env h deterministicForTests pkgInfo ptype ctxt =
     (case ctxt of
        None \<Rightarrow> Inl TypeError
      | Some ctx \<Rightarrow>
          (let serialNum = ''urn:uuid:'' @ env_uuidv4 env;
               ctxFilename =
                 (if \<not> deterministicForTests then ctx_filename ctx else Some ''/some/full/path'');
               references =
                 (if truthy (ctx_src ctx) \<and> truthy (ctx_filename ctx)
                  then Some (addGlobalReferences E (the (ctx_src ctx)) (the ctxFilename))
                  else None);
               allImports = (case ctx_allImports ctx of None \<Rightarrow> [] | Some a \<Rightarrow> a);
               nsMapping = (case ctx_nsMapping ctx of None \<Rightarrow> [] | Some m \<Rightarrow> m);
               metadata = addMetadata E env deterministicForTests
           in
           case listComponents n E h (Some allImports) pkgInfo ptype Xml of
             Inl e \<Rightarrow> Inl e
           | Inr components \<Rightarrow>
               if components \<noteq> [] then
                 (case listComponents n E h (Some allImports) pkgInfo ptype Json of
                    Inl e \<Rightarrow> Inl e
                  | Inr jsonComponents \<Rightarrow>
                      Inr (Bom
                        \<lparr> x_xmlns = ''http://cyclonedx.org/schema/bom/1.2'',
                          x_serialNumber =
                            (if \<not> deterministicForTests then Some serialNum else None),
                          x_version = 1, x_externalReferences = references,
                          x_metadata = metadata, x_components = components \<rparr>
                        \<lparr> j_bomFormat = ''CycloneDX'', j_specVersion = ''1.2'',
                          j_serialNumber = serialNum, j_version = 1,
                          j_metadata = metadata, j_components = jsonComponents \<rparr>
                        nsMapping))
               else Inr NoArguments))"

section \<open>Notions used in the statements\<close>

text \<open>The records a record depends on: the values of its \<^verbatim>\<open>dependencies\<close> that are not
  strings, in the order of the keys.\<close>

definition children :: "'l store \<Rightarrow> ref \<Rightarrow> ref list" where
  "children h r = (case pkg_dependencies (h ! r) of None \<Rightarrow> [] | Some ds \<Rightarrow> records_of ds)"

text \<open>The dependency edges of a store, and a record with the strings removed from its
  \<^verbatim>\<open>dependencies\<close>.\<close>

definition dep_edges :: "'l store \<Rightarrow> (ref \<times> ref) set" where
  "dep_edges h = {(r, r'). r < length h \<and> r' \<in> set (children h r)}"

definition is_record :: "string \<times> dep \<Rightarrow> bool" where
  "is_record e = (case snd e of DepString s \<Rightarrow> False | DepRecord r \<Rightarrow> True)"

definition drop_strings :: "'l pkg \<Rightarrow> 'l pkg" where
  "drop_strings p = p\<lparr>pkg_dependencies := map_option (filter is_record) (pkg_dependencies p)\<rparr>"

text \<open>A component is built from the record at \<open>r\<close>: the record is in the store, is not
  extraneous, and lines 194 to 259 turn it into this component.\<close>

definition built_from ::
  "'l externals \<Rightarrow> 'l store \<Rightarrow> import_map option \<Rightarrow> string \<Rightarrow> format \<Rightarrow> 'l component \<Rightarrow> ref \<Rightarrow> bool" where
  "built_from E h ai ptype fmt c r =
     (r < length h \<and> \<not> pkg_extraneous (h ! r) \<and>
      component_of E ai (h ! r) ptype fmt = Inr (Some c))"

text \<open>The package URLs of a component list, in its order.\<close>

definition purls :: "'l item list \<Rightarrow> string list" where
  "purls out = map (\<lambda>i. c_purl (item_component i)) out"

text \<open>The records of the store that would still add a component to the list: the
  measure of the walk.\<close>

definition pending ::
  "'l externals \<Rightarrow> 'l store \<Rightarrow> import_map option \<Rightarrow> string \<Rightarrow> format \<Rightarrow> 'l clist \<Rightarrow> ref set" where
  "pending E h ai ptype fmt list =
     {r. r < length h \<and> \<not> pkg_extraneous (h ! r) \<and>
         (\<exists>c. component_of E ai (h ! r) ptype fmt = Inr (Some c) \<and> \<not> has_key list (c_purl c))}"

text \<open>
  The records \<^verbatim>\<open>listComponents\<close> visits first as records that are not the root: the
  elements of an array, one record given for another ecosystem than \<^verbatim>\<open>npm\<close>, and for
  \<^verbatim>\<open>npm\<close> the records the root depends on (none when the root is extraneous).
\<close>

definition top_records :: "'l store \<Rightarrow> pkg_arg \<Rightarrow> string \<Rightarrow> ref list" where
  "top_records h pkg ptype =
     (case pkg of
        PkgArray ps \<Rightarrow> ps
      | PkgObject r \<Rightarrow>
          if ptype = ''npm'' then
            (if r < length h \<and> \<not> pkg_extraneous (h ! r) then children h r else [])
          else [r])"

text \<open>The package URL of the component the record at \<open>r\<close> turns into, if it turns into
  one, and the package URLs of the components its dependencies turn into.\<close>

definition purl_of ::
  "'l externals \<Rightarrow> 'l store \<Rightarrow> import_map option \<Rightarrow> string \<Rightarrow> format \<Rightarrow> ref \<Rightarrow> string option" where
  "purl_of E h ai ptype fmt r =
     (if r < length h \<and> \<not> pkg_extraneous (h ! r) then
        (case component_of E ai (h ! r) ptype fmt of
           Inr (Some c) \<Rightarrow> Some (c_purl c)
         | _ \<Rightarrow> None)
      else None)"

definition dep_purls ::
  "'l externals \<Rightarrow> 'l store \<Rightarrow> import_map option \<Rightarrow> string \<Rightarrow> format \<Rightarrow> ref \<Rightarrow> string list" where
  "dep_purls E h ai ptype fmt r = List.map_filter (purl_of E h ai ptype fmt) (children h r)"

text \<open>Records of the store with the same package URL have dependencies with the same
  package URLs.\<close>

definition same_purl_same_deps ::
  "'l externals \<Rightarrow> 'l store \<Rightarrow> import_map option \<Rightarrow> string \<Rightarrow> format \<Rightarrow> bool" where
  "same_purl_same_deps E h ai ptype fmt =
     list_all (\<lambda>r. list_all (\<lambda>r'.
         purl_of E h ai ptype fmt r = None
         \<or> purl_of E h ai ptype fmt r \<noteq> purl_of E h ai ptype fmt r'
         \<or> set (dep_purls E h ai ptype fmt r) = set (dep_purls E h ai ptype fmt r'))
       [0..<length h]) [0..<length h]"

text \<open>The records reached from the records \<open>tops\<close> through records that turn into
  components.\<close>

inductive_set live ::
  "'l externals \<Rightarrow> 'l store \<Rightarrow> import_map option \<Rightarrow> string \<Rightarrow> format \<Rightarrow> ref set \<Rightarrow> ref set"
  for E h ai ptype fmt tops where
    top: "r \<in> tops \<Longrightarrow> r \<in> live E h ai ptype fmt tops"
  | dep: "r \<in> live E h ai ptype fmt tops \<Longrightarrow> built_from E h ai ptype fmt c r
           \<Longrightarrow> r' \<in> set (children h r) \<Longrightarrow> r' \<in> live E h ai ptype fmt tops"

text \<open>In \<^verbatim>\<open>buildBomString\<close>: the import map handed to \<^verbatim>\<open>listComponents\<close>, the element
  tree of the XML document and the object \<^verbatim>\<open>jsonTpl\<close>.\<close>

definition imports_of :: "bom_context \<Rightarrow> import_map" where
  "imports_of ctx = (case ctx_allImports ctx of None \<Rightarrow> [] | Some a \<Rightarrow> a)"

definition bom_tree ::
  "'l externals \<Rightarrow> environment \<Rightarrow> bool \<Rightarrow> bom_context \<Rightarrow> 'l item list \<Rightarrow> 'l xml_bom" where
  "bom_tree E env det ctx components =
     \<lparr> x_xmlns = ''http://cyclonedx.org/schema/bom/1.2'',
       x_serialNumber = (if \<not> det then Some (''urn:uuid:'' @ env_uuidv4 env) else None),
       x_version = 1,
       x_externalReferences =
         (if truthy (ctx_src ctx) \<and> truthy (ctx_filename ctx)
          then Some (addGlobalReferences E (the (ctx_src ctx))
                 (the (if \<not> det then ctx_filename ctx else Some ''/some/full/path'')))
          else None),
       x_metadata = addMetadata E env det, x_components = components \<rparr>"

definition json_tpl ::
  "'l externals \<Rightarrow> environment \<Rightarrow> bool \<Rightarrow> 'l item list \<Rightarrow> 'l json_bom" where
  "json_tpl E env det components =
     \<lparr> j_bomFormat = ''CycloneDX'', j_specVersion = ''1.2'',
       j_serialNumber = ''urn:uuid:'' @ env_uuidv4 env, j_version = 1,
       j_metadata = addMetadata E env det, j_components = components \<rparr>"

section \<open>Reference definitions\<close>

text \<open>The hex digits \<^verbatim>\<open>Buffer.toString("hex")\<close> writes, and \<^verbatim>\<open>Buffer.from(s, "hex")\<close>,
  which reads pairs of digits up to the first pair that is not one.\<close>

definition lower_hex_char :: "char \<Rightarrow> bool" where
  "lower_hex_char c = (c \<in> set ''0123456789abcdef'')"

definition hex_value :: "char \<Rightarrow> nat option" where
  "hex_value c = index_of c ''0123456789abcdef''"

fun from_hex :: "string \<Rightarrow> nat list" where
  "from_hex (a # b # cs) =
     (case (hex_value a, hex_value b) of
        (Some x, Some y) \<Rightarrow> (x * 16 + y) # from_hex cs
      | _ \<Rightarrow> [])"
| "from_hex _ = []"

text \<open>The hashes of an integrity object as the documentation gives them: one entry for
  each of SHA-512, SHA-384, SHA-256 and SHA-1 that is present, in this order.\<close>

definition integrity_hashes :: "format \<Rightarrow> (string \<Rightarrow> string option) \<Rightarrow> hash_entry list" where
  "integrity_hashes fmt integrity =
     List.map_filter
       (\<lambda>(prop, alg). map_option (\<lambda>digest. hash_object fmt alg (hash_of_digest digest))
          (integrity prop))
       [(''sha512'', ''SHA-512''), (''sha384'', ''SHA-384''), (''sha256'', ''SHA-256''),
        (''sha1'', ''SHA-1'')]"

section \<open>Example data\<close>

text \<open>
  Collaborators and records for the examples: a name parser that splits
  \<^verbatim>\<open>@scope/name\<close>, an integrity parser that reads \<^verbatim>\<open>alg-digest\<close> entries separated by
  blanks, and a record with a name and a version and nothing else.
\<close>

definition example_name :: "string \<Rightarrow> pkg_identifier" where
  "example_name name =
     (if prefix ''@'' name \<and> CHR ''/'' \<in> set name
      then \<lparr> id_scope = Some (takeWhile (\<lambda>c. c \<noteq> CHR ''/'') (tl name)),
             id_fullName = Some (tl (dropWhile (\<lambda>c. c \<noteq> CHR ''/'') name)) \<rparr>
      else \<lparr> id_scope = None, id_fullName = Some name \<rparr>)"

fun split_on :: "char \<Rightarrow> string \<Rightarrow> string list" where
  "split_on c [] = [[]]"
| "split_on c (x # xs) =
     (if x = c then [] # split_on c xs
      else (case split_on c xs of w # ws \<Rightarrow> (x # w) # ws | [] \<Rightarrow> [[x]]))"

definition example_ssri :: "string \<Rightarrow> (string \<Rightarrow> string option) option" where
  "example_ssri s =
     Some (map_of (map (\<lambda>t. (takeWhile (\<lambda>c. c \<noteq> CHR ''-'') t,
                              tl (dropWhile (\<lambda>c. c \<noteq> CHR ''-'') t)))
                     (split_on CHR '' '' s)))"

definition example_collaborators :: "unit externals" where
  "example_collaborators =
     \<lparr> parsePackageJsonName = example_name, getLicenses = (\<lambda>l fmt. l),
       ssri_parse = example_ssri, pathJoin = (\<lambda>a b. a @ ''/'' @ b),
       selfPjson_version = ''4.0.25'', selfPjson_author = ''Prabhu Subramanian'' \<rparr>"

definition example_pkg :: "string \<Rightarrow> string \<Rightarrow> unit pkg" where
  "example_pkg name version =
     \<lparr> pkg_name = name, pkg_group = None, pkg_version = Some version,
       pkg_extraneous = False, pkg_scope = None, pkg_qualifiers = None, pkg_subpath = None,
       pkg_shasum = None, pkg_integrity = None, pkg_homepage = None, pkg_bugs_url = None,
       pkg_repository_url = None, pkg_keywords = None, pkg_description = None,
       pkg_license = (), pkg_dependencies = None \<rparr>"

definition example_component :: "unit component" where
  "example_component =
     \<lparr> c_group = [], c_name = ''left-pad'', c_version = Some ''1.3.0'', c_hashes = Some [],
       c_licenses = (), c_purl = ''pkg:npm/left-pad@1.3.0'', c_externalReferences = None,
       c_scope = None, c_shape = Json, c_type = ''library'',
       c_bom_ref = ''pkg:npm/left-pad@1.3.0'', c_description = Plain None \<rparr>"

text \<open>
  A store with a diamond (\<^verbatim>\<open>a\<close> is reached from the root and from \<^verbatim>\<open>b\<close>), a cycle
  (\<^verbatim>\<open>c\<close> depends on its ancestor \<^verbatim>\<open>a\<close>), a second record for \<^verbatim>\<open>c@1.0.0\<close> with a dependency
  of its own, an \<^verbatim>\<open>@types\<close> package, an extraneous package with a dependency, and a
  dependency that is a string.  And a store where \<^verbatim>\<open>x\<close> depends on itself and \<^verbatim>\<open>x\<close> and
  \<^verbatim>\<open>y\<close> depend on each other.
\<close>

definition with_deps :: "unit pkg \<Rightarrow> (string \<times> dep) list \<Rightarrow> unit pkg" where
  "with_deps p ds = p\<lparr>pkg_dependencies := Some ds\<rparr>"

definition example_store :: "unit store" where
  "example_store =
     [with_deps (example_pkg ''app'' ''1.0.0'')
        [(''a'', DepRecord 1), (''b'', DepRecord 2), (''missing'', DepString ''^1.0.0''),
         (''@types/node'', DepRecord 6), (''dev-tool'', DepRecord 7)],
      with_deps (example_pkg ''a'' ''1.0.0'') [(''c'', DepRecord 3)],
      with_deps (example_pkg ''b'' ''1.0.0'') [(''c'', DepRecord 4), (''a'', DepRecord 1)],
      with_deps (example_pkg ''c'' ''1.0.0'') [(''a'', DepRecord 1)],
      with_deps ((example_pkg ''c'' ''1.0.0'')\<lparr>pkg_description := Some ''second copy''\<rparr>)
        [(''d'', DepRecord 5)],
      example_pkg ''d'' ''1.0.0'',
      example_pkg ''@types/node'' ''14.0.0'',
      with_deps ((example_pkg ''dev-tool'' ''1.0.0'')\<lparr>pkg_extraneous := True\<rparr>)
        [(''e'', DepRecord 8)],
      example_pkg ''e'' ''1.0.0'']"

definition cyclic_store :: "unit store" where
  "cyclic_store =
     [with_deps (example_pkg ''app'' ''1.0.0'') [(''x'', DepRecord 1)],
      with_deps (example_pkg ''x'' ''1.0.0'') [(''x'', DepRecord 1), (''y'', DepRecord 2)],
      with_deps (example_pkg ''y'' ''1.0.0'') [(''x'', DepRecord 1), (''z'', DepString ''1.0.0'')]]"

text \<open>
  A store where a second record for \<^verbatim>\<open>a@1.0.0\<close>, nested under \<^verbatim>\<open>b\<close>, depends on \<^verbatim>\<open>x\<close>, and
  \<^verbatim>\<open>x\<close> and \<^verbatim>\<open>y\<close> depend on each other.  And the two records of the scope example.
\<close>

definition hidden_cycle_store :: "unit store" where
  "hidden_cycle_store =
     [with_deps (example_pkg ''app'' ''1.0.0'') [(''a'', DepRecord 1), (''b'', DepRecord 2)],
      example_pkg ''a'' ''1.0.0'',
      with_deps (example_pkg ''b'' ''1.0.0'') [(''a'', DepRecord 3)],
      with_deps ((example_pkg ''a'' ''1.0.0'')\<lparr>pkg_description := Some ''nested copy''\<rparr>)
        [(''x'', DepRecord 4)],
      with_deps (example_pkg ''x'' ''1.0.0'') [(''y'', DepRecord 5)],
      with_deps (example_pkg ''y'' ''1.0.0'') [(''x'', DepRecord 4)]]"

definition pads_store :: "unit store" where
  "pads_store = [example_pkg ''left-pad'' ''1.3.0'', example_pkg ''right-pad'' ''1.0.0'']"

text \<open>A context as \<^verbatim>\<open>createNodejsBom\<close> passes it, and what two runs read from the
  random source and the clock.\<close>

definition example_context :: bom_context where
  "example_context =
     \<lparr> ctx_src = Some ''/work/app'', ctx_filename = Some ''package.json'',
       ctx_allImports = Some [], ctx_nsMapping = None \<rparr>"

definition first_run :: environment where
  "first_run = \<lparr> env_uuidv4 = ''3e671687-395b-41f5-a30f-a58921a69b79'',
                  env_now = ''2022-06-03T09:34:10.062Z'' \<rparr>"

definition second_run :: environment where
  "second_run = \<lparr> env_uuidv4 = ''9b1deb4d-3b7d-4bad-9bdd-2b0d7b3dcb6d'',
                   env_now = ''2022-06-03T09:34:11.500Z'' \<rparr>"

section \<open>Hashes: base64 to hex\<close>

lemma hex_digit_table:
  "list_all (\<lambda>d. hex_value (hex_digit d) = Some d \<and> lower_hex_char (hex_digit d)) [0..<16]"
  by code_simp

lemma hex_digit_cases: "d < 16 \<Longrightarrow> hex_value (hex_digit d) = Some d \<and> lower_hex_char (hex_digit d)"
  using hex_digit_table unfolding list_all_iff by simp

lemma from_hex_to_hex: "list_all (\<lambda>b. b < 256) bs \<Longrightarrow> from_hex (to_hex bs) = bs"
proof (induction bs)
  case Nil
  then show ?case by (simp add: to_hex_def)
next
  case (Cons b bs)
  then have b: "b < 256" and IH: "from_hex (to_hex bs) = bs" by (simp_all add: to_hex_def)
  have hi: "b div 16 < 16" using b by simp
  have lo: "b mod 16 < 16" by simp
  have d: "hex_digit b = hex_digit (b mod 16)" by (simp add: hex_digit_def)
  have "to_hex (b # bs) = hex_digit (b div 16) # hex_digit (b mod 16) # to_hex bs"
    using d by (simp add: to_hex_def)
  then show ?case
    using hex_digit_cases[OF hi] hex_digit_cases[OF lo] IH by simp
qed

lemma to_hex_lower: "list_all lower_hex_char (to_hex bs)"
proof (induction bs)
  case Nil
  then show ?case by (simp add: to_hex_def)
next
  case (Cons b bs)
  have d: "hex_digit b = hex_digit (b mod 16)" "hex_digit (b div 16) = hex_digit (b div 16 mod 16)"
    by (simp_all add: hex_digit_def)
  have "lower_hex_char (hex_digit b)" "lower_hex_char (hex_digit (b div 16))"
    using hex_digit_cases[of "b mod 16"] hex_digit_cases[of "b div 16 mod 16"] d by simp_all
  then show ?case using Cons by (simp add: to_hex_def)
qed

lemma index_of_less: "index_of x ys = Some i \<Longrightarrow> i < length ys"
  by (induction ys arbitrary: i) (auto split: if_splits)

lemma unbase64_less: "unbase64 c = Some d \<Longrightarrow> d < 64"
  unfolding unbase64_def by (auto split: if_splits dest!: index_of_less simp: b64_alphabet_def)

lemma b64_digits_less: "list_all (\<lambda>d. d < 64) (b64_digits s)"
  by (induction s) (auto split: option.splits dest: unbase64_less)

lemma sextets_to_bytes:
  fixes a b c d :: nat
  assumes "a < 64" "b < 64" "c < 64" "d < 64"
  shows "a * 4 + b div 16 < 256" "b mod 16 * 16 + c div 4 < 256" "c mod 4 * 64 + d < 256"
  using assms by auto

lemma b64_bytes_less: "list_all (\<lambda>d. d < 64) ds \<Longrightarrow> list_all (\<lambda>b. b < 256) (b64_bytes ds)"
  by (induction ds rule: b64_bytes.induct) (auto intro: sextets_to_bytes)

lemma from_base64_bytes: "list_all (\<lambda>b. b < 256) (from_base64 s)"
  unfolding from_base64_def by (rule b64_bytes_less[OF b64_digits_less])

text \<open>
  C6, as the code has it.  \<^verbatim>\<open>addComponentHash\<close> appends one entry for the algorithm.  A
  digest that matches \<^verbatim>\<open>HASH_PATTERN\<close> is emitted unchanged.  A digest that does not
  match it and that \<^verbatim>\<open>Buffer\<close> reads and writes back as the same base64 text is emitted
  as lowercase hex digits that stand for the same bytes.
\<close>

theorem addComponentHash_normalizes:
  "c_hashes component = Some hs \<Longrightarrow>
   addComponentHash alg digest component fmt =
     Inr (component\<lparr>c_hashes := Some (hs @ [hash_object fmt alg (hash_of_digest digest)])\<rparr>)
   \<and> (HASH_PATTERN digest \<longrightarrow> hash_of_digest digest = digest)
   \<and> (\<not> HASH_PATTERN digest \<and> isBase64Encoded digest \<longrightarrow>
        list_all lower_hex_char (hash_of_digest digest)
        \<and> from_hex (hash_of_digest digest) = from_base64 digest)"
  by (simp add: addComponentHash_def push_hash_def hash_of_digest_def to_hex_lower
      from_hex_to_hex from_base64_bytes)

theorem addComponentHash_normalizes_witness:
  "addComponentHash ''SHA-1'' ''2jmj7l5rSw0yVb/vlWAYkK/YBwk='' example_component Json =
     Inr (example_component\<lparr>c_hashes :=
            Some [HashJson ''SHA-1'' ''da39a3ee5e6b4b0d3255bfef95601890afd80709'']\<rparr>)
   \<and> from_hex ''da39a3ee5e6b4b0d3255bfef95601890afd80709''
       = from_base64 ''2jmj7l5rSw0yVb/vlWAYkK/YBwk=''
   \<and> addComponentHash ''SHA-1'' ''DA39A3EE5E6B4B0D3255BFEF95601890AFD80709'' example_component Xml =
     Inr (example_component\<lparr>c_hashes :=
            Some [HashXml ''SHA-1'' ''DA39A3EE5E6B4B0D3255BFEF95601890AFD80709'']\<rparr>)"
proof -
  have h: "c_hashes example_component = Some []" by (simp add: example_component_def)
  have a: "hash_of_digest ''2jmj7l5rSw0yVb/vlWAYkK/YBwk='' = ''da39a3ee5e6b4b0d3255bfef95601890afd80709''"
    by code_simp
  have b: "\<not> HASH_PATTERN ''2jmj7l5rSw0yVb/vlWAYkK/YBwk=''" by code_simp
  have c: "isBase64Encoded ''2jmj7l5rSw0yVb/vlWAYkK/YBwk=''" by code_simp
  have d: "HASH_PATTERN ''DA39A3EE5E6B4B0D3255BFEF95601890AFD80709''" by code_simp
  show ?thesis
    using addComponentHash_normalizes[OF h, of "''SHA-1''" "''2jmj7l5rSw0yVb/vlWAYkK/YBwk=''" Json]
      addComponentHash_normalizes[OF h, of "''SHA-1''" "''DA39A3EE5E6B4B0D3255BFEF95601890AFD80709''" Xml]
      a b c d
    by (simp add: hash_object_def)
qed

text \<open>
  C6 as stated fails where the two cases overlap: 64 letters \<^verbatim>\<open>a\<close> are a base64 text
  of 48 bytes (the length of a SHA-384 digest) and also match the hex pattern, and
  the pattern is tested first, so the digest is emitted as it is and not as the hex
  digits of its bytes.
\<close>

theorem addComponentHash_hex_first_counterexample:
  "HASH_PATTERN ''aaaaaaaaaaaaaaaaaaaaaaaaaaaaaaaaaaaaaaaaaaaaaaaaaaaaaaaaaaaaaaaa''
   \<and> isBase64Encoded ''aaaaaaaaaaaaaaaaaaaaaaaaaaaaaaaaaaaaaaaaaaaaaaaaaaaaaaaaaaaaaaaa''
   \<and> addComponentHash ''SHA-384'' ''aaaaaaaaaaaaaaaaaaaaaaaaaaaaaaaaaaaaaaaaaaaaaaaaaaaaaaaaaaaaaaaa''
        example_component Json
      = Inr (example_component\<lparr>c_hashes := Some
          [HashJson ''SHA-384'' ''aaaaaaaaaaaaaaaaaaaaaaaaaaaaaaaaaaaaaaaaaaaaaaaaaaaaaaaaaaaaaaaa'']\<rparr>)
   \<and> to_hex (from_base64 ''aaaaaaaaaaaaaaaaaaaaaaaaaaaaaaaaaaaaaaaaaaaaaaaaaaaaaaaaaaaaaaaa'')
      = ''69a69a69a69a69a69a69a69a69a69a69a69a69a69a69a69a69a69a69a69a69a69a69a69a69a69a69a69a69a69a69a69a''"
proof -
  have a: "HASH_PATTERN ''aaaaaaaaaaaaaaaaaaaaaaaaaaaaaaaaaaaaaaaaaaaaaaaaaaaaaaaaaaaaaaaa''"
    by code_simp
  have b: "isBase64Encoded ''aaaaaaaaaaaaaaaaaaaaaaaaaaaaaaaaaaaaaaaaaaaaaaaaaaaaaaaaaaaaaaaa''"
    by code_simp
  have c: "to_hex (from_base64 ''aaaaaaaaaaaaaaaaaaaaaaaaaaaaaaaaaaaaaaaaaaaaaaaaaaaaaaaaaaaaaaaa'')
      = ''69a69a69a69a69a69a69a69a69a69a69a69a69a69a69a69a69a69a69a69a69a69a69a69a69a69a69a69a69a69a69a69a''"
    by code_simp
  show ?thesis
    using a b c
    by (simp add: addComponentHash_def push_hash_def hash_of_digest_def hash_object_def
        example_component_def)
qed

section \<open>Hashes: precedence\<close>

lemma processHashes_appends:
  "c_hashes component = Some hs \<Longrightarrow>
   processHashes E pkg component fmt =
     Inr (component\<lparr>c_hashes :=
       (let new =
          (if truthy (pkg_shasum pkg) then [hash_object fmt ''SHA-1'' (the (pkg_shasum pkg))]
           else if truthy (pkg_integrity pkg) then
             integrity_hashes fmt
               (case ssri_parse E (the (pkg_integrity pkg)) of None \<Rightarrow> (\<lambda>_. None) | Some i \<Rightarrow> i)
           else [])
        in if hs @ new = [] then None else Some (hs @ new))\<rparr>)"
  by (auto simp: processHashes_def add_if_present_def addComponentHash_def push_hash_def
      delete_empty_hashes_def integrity_hashes_def List.map_filter_def Let_def
      split: option.splits)

text \<open>
  C5.  For a component whose \<^verbatim>\<open>hashes\<close> is a list, \<^verbatim>\<open>processHashes\<close> appends: the raw
  \<^verbatim>\<open>_shasum\<close> as the one SHA-1 entry when it is present, and then nothing of the
  integrity string; otherwise the entries of the parsed integrity string for SHA-512,
  SHA-384, SHA-256 and SHA-1, in this order; and it deletes \<^verbatim>\<open>hashes\<close> when the list is
  empty in the end.
\<close>

theorem processHashes_precedence:
  "c_hashes component = Some hs \<Longrightarrow>
   processHashes E pkg component fmt =
     Inr (component\<lparr>c_hashes :=
       (let new =
          (if truthy (pkg_shasum pkg) then [hash_object fmt ''SHA-1'' (the (pkg_shasum pkg))]
           else if truthy (pkg_integrity pkg) then
             integrity_hashes fmt
               (case ssri_parse E (the (pkg_integrity pkg)) of None \<Rightarrow> (\<lambda>_. None) | Some i \<Rightarrow> i)
           else [])
        in if hs @ new = [] then None else Some (hs @ new))\<rparr>)"
  by (rule processHashes_appends)

theorem processHashes_precedence_witness:
  "processHashes example_collaborators
     ((example_pkg ''left-pad'' ''1.3.0'')
        \<lparr>pkg_integrity := Some ''sha1-2jmj7l5rSw0yVb/vlWAYkK/YBwk= sha512-z4PhNX7vuL3xVChQ1m2AB9Yg5AULVxXcg/SpIdNs6c5H0NE8XYXysP+DGNKHfuwvY7kxvUdBeoGlODJ6+SfaPg==''\<rparr>)
     example_component Json
   = Inr (example_component\<lparr>c_hashes := Some
       [HashJson ''SHA-512'' ''cf83e1357eefb8bdf1542850d66d8007d620e4050b5715dc83f4a921d36ce9ce47d0d13c5d85f2b0ff8318d2877eec2f63b931bd47417a81a538327af927da3e'',
        HashJson ''SHA-1'' ''da39a3ee5e6b4b0d3255bfef95601890afd80709'']\<rparr>)
   \<and> processHashes example_collaborators
     ((example_pkg ''left-pad'' ''1.3.0'')
        \<lparr>pkg_shasum := Some ''DA39A3EE5E6B4B0D3255BFEF95601890AFD80709'',
         pkg_integrity := Some ''sha512-z4PhNX7vuL3xVChQ1m2AB9Yg5AULVxXcg/SpIdNs6c5H0NE8XYXysP+DGNKHfuwvY7kxvUdBeoGlODJ6+SfaPg==''\<rparr>)
     example_component Xml
   = Inr (example_component\<lparr>c_hashes := Some
       [HashXml ''SHA-1'' ''DA39A3EE5E6B4B0D3255BFEF95601890AFD80709'']\<rparr>)
   \<and> processHashes example_collaborators (example_pkg ''left-pad'' ''1.3.0'')
     example_component Xml
   = Inr (example_component\<lparr>c_hashes := None\<rparr>)"
proof -
  have h: "c_hashes example_component = Some []" by (simp add: example_component_def)
  have a: "integrity_hashes Json (the (example_ssri ''sha1-2jmj7l5rSw0yVb/vlWAYkK/YBwk= sha512-z4PhNX7vuL3xVChQ1m2AB9Yg5AULVxXcg/SpIdNs6c5H0NE8XYXysP+DGNKHfuwvY7kxvUdBeoGlODJ6+SfaPg==''))
    = [HashJson ''SHA-512'' ''cf83e1357eefb8bdf1542850d66d8007d620e4050b5715dc83f4a921d36ce9ce47d0d13c5d85f2b0ff8318d2877eec2f63b931bd47417a81a538327af927da3e'',
        HashJson ''SHA-1'' ''da39a3ee5e6b4b0d3255bfef95601890afd80709'']"
    by code_simp
  show ?thesis
    using a
    by (simp add: processHashes_precedence[OF h] example_collaborators_def example_pkg_def
        truthy_def hash_object_def example_ssri_def)
qed

section \<open>The walk: invariants\<close>

lemma addComponent_Suc:
  "addComponent (Suc n) E h ai r ptype list isRoot fmt =
     (if length h \<le> r then Inl DanglingRef
      else if pkg_extraneous (h ! r) then Inr list
      else if isRoot then
        for_each (\<lambda>x l. addComponent n E h ai x ptype l False fmt) (children h r) list
      else
        (case component_of E ai (h ! r) ptype fmt of
           Inl e \<Rightarrow> Inl e
         | Inr None \<Rightarrow> Inr list
         | Inr (Some c) \<Rightarrow>
             if has_key list (c_purl c) then Inr list
             else for_each (\<lambda>x l. addComponent n E h ai x ptype l False fmt) (children h r)
                    (list @ [(c_purl c, c)])))"
  by (simp add: children_def Let_def split: option.splits sum.splits)

lemma addComponent_0: "addComponent 0 E h ai r ptype list isRoot fmt = Inl OutOfFuel"
  by simp

declare addComponent.simps [simp del]

lemma for_each_invariant:
  assumes "for_each f rs l = Inr l'" and "P l"
    and "\<And>x l l'. x \<in> set rs \<Longrightarrow> P l \<Longrightarrow> f x l = Inr l' \<Longrightarrow> P l'"
  shows "P l'"
  using assms
proof (induction rs arbitrary: l)
  case Nil
  then show ?case by simp
next
  case (Cons r rs)
  from Cons.prems(1) obtain m where m: "f r l = Inr m" "for_each f rs m = Inr l'"
    by (auto split: sum.splits)
  have "P m" using Cons.prems(3)[of r l m] Cons.prems(2) m(1) by simp
  then show ?case using Cons.IH[OF m(2)] Cons.prems(3) by (meson list.set_intros(2))
qed

lemma addComponent_invariant:
  assumes closed: "\<And>r r'. r \<in> S \<Longrightarrow> r < length h \<Longrightarrow> r' \<in> set (children h r) \<Longrightarrow> r' \<in> S"
    and step: "\<And>list r c. P list \<Longrightarrow> r \<in> S \<Longrightarrow> r < length h \<Longrightarrow> \<not> pkg_extraneous (h ! r)
        \<Longrightarrow> component_of E ai (h ! r) ptype fmt = Inr (Some c)
        \<Longrightarrow> \<not> has_key list (c_purl c) \<Longrightarrow> P (list @ [(c_purl c, c)])"
  shows "addComponent n E h ai r ptype list False fmt = Inr list' \<Longrightarrow> P list \<Longrightarrow> r \<in> S
           \<Longrightarrow> P list'"
proof (induction n arbitrary: r list list')
  case 0
  then show ?case by (simp add: addComponent_0)
next
  case (Suc n)
  let ?f = "\<lambda>x l. addComponent n E h ai x ptype l False fmt"
  have r: "r < length h" using Suc.prems(1) by (simp add: addComponent_Suc split: if_splits)
  have kids: "P m'" if "for_each ?f (children h r) m = Inr m'" "P m" for m m'
    using that(1) that(2)
  proof (rule for_each_invariant)
    fix x l l' assume "x \<in> set (children h r)" "P l" "?f x l = Inr l'"
    then show "P l'" using Suc.IH[of x l l'] closed[OF Suc.prems(3) r] by simp
  qed
  show ?case
  proof (cases "pkg_extraneous (h ! r)")
    case True
    then show ?thesis using Suc.prems r by (simp add: addComponent_Suc)
  next
    case False
    show ?thesis
    proof (cases "component_of E ai (h ! r) ptype fmt")
      case (Inl e)
      then show ?thesis using Suc.prems r False by (simp add: addComponent_Suc)
    next
      case (Inr oc)
      show ?thesis
      proof (cases oc)
        case None
        then show ?thesis using Suc.prems r False Inr by (simp add: addComponent_Suc)
      next
        case (Some c)
        show ?thesis
        proof (cases "has_key list (c_purl c)")
          case True
          then show ?thesis using Suc.prems r False Inr Some by (simp add: addComponent_Suc)
        next
          case nk: False
          have "P (list @ [(c_purl c, c)])"
            using step[OF Suc.prems(2) Suc.prems(3) r False _ nk] Inr Some by simp
          moreover have "for_each ?f (children h r) (list @ [(c_purl c, c)]) = Inr list'"
            using Suc.prems(1) r False Inr Some nk by (simp add: addComponent_Suc)
          ultimately show ?thesis using kids by blast
        qed
      qed
    qed
  qed
qed

lemma visits_invariant:
  assumes closed: "\<And>r r'. r \<in> S \<Longrightarrow> r < length h \<Longrightarrow> r' \<in> set (children h r) \<Longrightarrow> r' \<in> S"
    and step: "\<And>list r c. P list \<Longrightarrow> r \<in> S \<Longrightarrow> r < length h \<Longrightarrow> \<not> pkg_extraneous (h ! r)
        \<Longrightarrow> component_of E ai (h ! r) ptype fmt = Inr (Some c)
        \<Longrightarrow> \<not> has_key list (c_purl c) \<Longrightarrow> P (list @ [(c_purl c, c)])"
    and run: "for_each (\<lambda>x l. addComponent n E h ai x ptype l False fmt) rs list = Inr list'"
    and "P list" and rs: "set rs \<subseteq> S"
  shows "P list'"
  using run \<open>P list\<close>
proof (rule for_each_invariant)
  fix x l l'
  assume "x \<in> set rs" "P l" "addComponent n E h ai x ptype l False fmt = Inr l'"
  then show "P l'"
    using addComponent_invariant[of S h P E ai ptype fmt n x l l'] closed step rs by blast
qed

text \<open>The top-level calls of the walk: the records visited as non-root records first.\<close>

lemma walk_cases:
  assumes "walk n E h ai pkg ptype fmt = Inr list'"
  obtains rs where "for_each (\<lambda>x l. addComponent n E h ai x ptype l False fmt) rs [] = Inr list'"
      and "pkg = PkgArray rs \<or> (\<exists>r. pkg = PkgObject r \<and> ptype \<noteq> ''npm'' \<and> rs = [r])"
  | r m where "pkg = PkgObject r" "ptype = ''npm''" "n = Suc m" "r < length h"
      "\<not> pkg_extraneous (h ! r)"
      "for_each (\<lambda>x l. addComponent m E h ai x ptype l False fmt) (children h r) [] = Inr list'"
  | r where "pkg = PkgObject r" "ptype = ''npm''" "list' = []" "r < length h" "pkg_extraneous (h ! r)"
proof (cases pkg)
  case (PkgArray rs)
  then show ?thesis using assms that(1)[of rs] by (simp add: walk_def)
next
  case (PkgObject r)
  show ?thesis
  proof (cases "ptype = ''npm''")
    case False
    then have "for_each (\<lambda>x l. addComponent n E h ai x ptype l False fmt) [r] [] = Inr list'"
      using assms PkgObject by (simp add: walk_def split: sum.splits)
    then show ?thesis using that(1)[of "[r]"] PkgObject False by simp
  next
    case True
    then have a: "addComponent n E h ai r ptype [] True fmt = Inr list'"
      using assms PkgObject by (simp add: walk_def)
    then obtain m where n: "n = Suc m" by (cases n) (simp_all add: addComponent_0)
    have r: "r < length h" using a n by (simp add: addComponent_Suc split: if_splits)
    show ?thesis
    proof (cases "pkg_extraneous (h ! r)")
      case True
      then show ?thesis using that(3)[of r] a n r PkgObject \<open>ptype = ''npm''\<close>
        by (simp add: addComponent_Suc)
    next
      case False
      then show ?thesis using that(2)[of r m] a n r PkgObject \<open>ptype = ''npm''\<close>
        by (simp add: addComponent_Suc)
    qed
  qed
qed

lemma walk_invariant:
  assumes step: "\<And>list r c. P list \<Longrightarrow> r < length h \<Longrightarrow> \<not> pkg_extraneous (h ! r)
        \<Longrightarrow> component_of E ai (h ! r) ptype fmt = Inr (Some c)
        \<Longrightarrow> \<not> has_key list (c_purl c) \<Longrightarrow> P (list @ [(c_purl c, c)])"
    and run: "walk n E h ai pkg ptype fmt = Inr list'"
    and "P []"
  shows "P list'"
  using run
proof (cases rule: walk_cases)
  case (1 rs)
  then show ?thesis
    using visits_invariant[of UNIV h P E ai ptype fmt n rs "[]" list'] step \<open>P []\<close> by simp
next
  case (2 r m)
  then show ?thesis
    using visits_invariant[of UNIV h P E ai ptype fmt m "children h r" "[]" list'] step \<open>P []\<close>
    by simp
next
  case (3 r)
  then show ?thesis using \<open>P []\<close> by simp
qed

section \<open>The walk: what a record turns into\<close>

lemma component_of_Some:
  assumes "component_of E ai pkg ptype fmt = Inr (Some c)"
  shows "\<not> skip_types E ptype pkg"
    and "purl_string ptype (group_of E pkg) (name_of E pkg) (pkg_version pkg)
           (pkg_qualifiers pkg) (pkg_subpath pkg) = Inr (c_purl c)"
    and "c_group c = group_of E pkg" and "c_name c = name_of E pkg"
    and "c_scope c =
          (let scope = compScope ai (group_of E pkg) (name_of E pkg) (pkg_scope pkg)
           in if truthy scope then scope else None)"
  using assms
  by (auto simp: component_of_def Let_def processHashes_appends
      split: if_splits sum.splits)

lemma component_of_no_fuel: "component_of E ai pkg ptype fmt \<noteq> Inl OutOfFuel"
  by (auto simp: component_of_def Let_def processHashes_appends purl_string_def
      split: if_splits sum.splits)

lemma pending_bound: "finite (pending E h ai ptype fmt list)"
  "card (pending E h ai ptype fmt list) \<le> length h"
proof -
  have sub: "pending E h ai ptype fmt list \<subseteq> {..<length h}"
    by (auto simp: pending_def)
  show "finite (pending E h ai ptype fmt list)"
    using sub by (rule finite_subset) simp
  show "card (pending E h ai ptype fmt list) \<le> length h"
    using card_mono[OF _ sub] by simp
qed

lemma pending_antimono:
  "prefix l l' \<Longrightarrow> pending E h ai ptype fmt l' \<subseteq> pending E h ai ptype fmt l"
  by (auto simp: pending_def has_key_def prefix_def)

lemma addComponent_extends:
  assumes "addComponent n E h ai r ptype list False fmt = Inr list'"
  shows "prefix list list'"
  by (rule addComponent_invariant[where S = UNIV and P = "\<lambda>l. prefix list l", OF _ _ assms])
    simp_all

lemma visits_enough_fuel:
  assumes IH: "\<And>r list. card (pending E h ai ptype fmt list) < n
                 \<Longrightarrow> addComponent n E h ai r ptype list False fmt \<noteq> Inl OutOfFuel"
    and "card (pending E h ai ptype fmt list) < n"
  shows "for_each (\<lambda>x l. addComponent n E h ai x ptype l False fmt) rs list \<noteq> Inl OutOfFuel"
  using assms(2)
proof (induction rs arbitrary: list)
  case Nil
  then show ?case by simp
next
  case (Cons x rs)
  show ?case
  proof (cases "addComponent n E h ai x ptype list False fmt")
    case (Inl e)
    then show ?thesis using IH[OF Cons.prems, of x] by simp
  next
    case (Inr m)
    have "pending E h ai ptype fmt m \<subseteq> pending E h ai ptype fmt list"
      using addComponent_extends[OF Inr] by (rule pending_antimono)
    then have "card (pending E h ai ptype fmt m) \<le> card (pending E h ai ptype fmt list)"
      by (rule card_mono[OF pending_bound(1)])
    then show ?thesis using Cons.IH[of m] Cons.prems Inr by simp
  qed
qed

lemma addComponent_enough_fuel:
  "card (pending E h ai ptype fmt list) < n
     \<Longrightarrow> addComponent n E h ai r ptype list False fmt \<noteq> Inl OutOfFuel"
proof (induction n arbitrary: r list)
  case 0
  then show ?case by simp
next
  case (Suc n)
  let ?f = "\<lambda>x l. addComponent n E h ai x ptype l False fmt"
  show ?case
  proof (cases "r < length h \<and> \<not> pkg_extraneous (h ! r)")
    case False
    then show ?thesis by (auto simp: addComponent_Suc)
  next
    case ok: True
    show ?thesis
    proof (cases "component_of E ai (h ! r) ptype fmt")
      case (Inl e)
      then show ?thesis using ok component_of_no_fuel[of E ai "h ! r" ptype fmt]
        by (simp add: addComponent_Suc)
    next
      case (Inr oc)
      show ?thesis
      proof (cases oc)
        case None
        then show ?thesis using ok Inr by (simp add: addComponent_Suc)
      next
        case (Some c)
        show ?thesis
        proof (cases "has_key list (c_purl c)")
          case True
          then show ?thesis using ok Inr Some by (simp add: addComponent_Suc)
        next
          case nk: False
          let ?l = "list @ [(c_purl c, c)]"
          have in_old: "r \<in> pending E h ai ptype fmt list"
            using ok Inr Some nk by (auto simp: pending_def)
          have not_new: "r \<notin> pending E h ai ptype fmt ?l"
            using Inr Some by (auto simp: pending_def has_key_def)
          have "pending E h ai ptype fmt ?l \<subseteq> pending E h ai ptype fmt list"
            by (rule pending_antimono) simp
          then have "pending E h ai ptype fmt ?l \<subset> pending E h ai ptype fmt list"
            using in_old not_new by blast
          then have "card (pending E h ai ptype fmt ?l) < card (pending E h ai ptype fmt list)"
            by (rule psubset_card_mono[OF pending_bound(1)])
          then have less: "card (pending E h ai ptype fmt ?l) < n"
            using Suc.prems by simp
          have "for_each ?f (children h r) ?l \<noteq> Inl OutOfFuel"
            using Suc.IH less by (rule visits_enough_fuel)
          then show ?thesis using ok Inr Some nk by (simp add: addComponent_Suc)
        qed
      qed
    qed
  qed
qed

lemma for_each_agree:
  assumes "\<And>x l res. f x l = res \<Longrightarrow> res \<noteq> Inl OutOfFuel \<Longrightarrow> g x l = res"
    and "for_each f rs l = res" and "res \<noteq> Inl OutOfFuel"
  shows "for_each g rs l = res"
  using assms(2,3)
proof (induction rs arbitrary: l)
  case Nil
  then show ?case by simp
next
  case (Cons x rs)
  show ?case
  proof (cases "f x l")
    case (Inl e)
    then have "res = Inl e" using Cons.prems by simp
    then show ?thesis using assms(1)[OF Inl] Cons.prems by simp
  next
    case (Inr m)
    then have "g x l = Inr m" using assms(1)[OF Inr] by simp
    then show ?thesis using Cons.IH[of m] Cons.prems Inr by simp
  qed
qed

lemma addComponent_more_fuel:
  "addComponent n E h ai r ptype list isRoot fmt = res \<Longrightarrow> res \<noteq> Inl OutOfFuel
     \<Longrightarrow> addComponent (n + k) E h ai r ptype list isRoot fmt = res"
proof (induction n arbitrary: r list isRoot res)
  case 0
  then show ?case by (simp add: addComponent_0)
next
  case (Suc n)
  let ?f = "\<lambda>x l. addComponent n E h ai x ptype l False fmt"
  let ?g = "\<lambda>x l. addComponent (n + k) E h ai x ptype l False fmt"
  have kids: "for_each ?g rs l = res" if "for_each ?f rs l = res" for rs l
    using _ that Suc.prems(2)
  proof (rule for_each_agree)
    fix x l res assume "?f x l = res" "res \<noteq> Inl OutOfFuel"
    then show "?g x l = res" by (rule Suc.IH)
  qed
  show ?case
    using Suc.prems(1) kids
    by (auto simp: addComponent_Suc split: if_splits sum.splits option.splits)
qed

section \<open>The walk: the output list\<close>

lemma listComponents_Inr:
  "listComponents n E h ai pkg ptype fmt = Inr out \<longleftrightarrow>
     (\<exists>l. walk n E h ai pkg ptype fmt = Inr l \<and>
          out = map (\<lambda>(k, c). case fmt of Xml \<Rightarrow> Wrapped c | Json \<Rightarrow> Bare c) l)"
  by (cases "walk n E h ai pkg ptype fmt") (auto simp: listComponents_def)

lemma listComponents_Inl:
  "listComponents n E h ai pkg ptype fmt = Inl e \<longleftrightarrow> walk n E h ai pkg ptype fmt = Inl e"
  by (cases "walk n E h ai pkg ptype fmt") (auto simp: listComponents_def)

lemma item_component_of_item:
  "item_component (case fmt of Xml \<Rightarrow> Wrapped c | Json \<Rightarrow> Bare c) = c"
  by (cases fmt) simp_all

lemma walk_keys:
  assumes "walk n E h ai pkg ptype fmt = Inr l"
  shows "distinct (map fst l) \<and> map (\<lambda>e. c_purl (snd e)) l = map fst l"
  by (rule walk_invariant[where P = "\<lambda>l. distinct (map fst l) \<and> map (\<lambda>e. c_purl (snd e)) l = map fst l",
        OF _ assms])
    (auto simp: has_key_def)

lemma listComponents_distinct:
  assumes "listComponents n E h ai pkg ptype fmt = Inr out"
  shows "distinct (purls out)"
proof -
  from assms obtain l where l: "walk n E h ai pkg ptype fmt = Inr l"
    and out: "out = map (\<lambda>(k, c). case fmt of Xml \<Rightarrow> Wrapped c | Json \<Rightarrow> Bare c) l"
    by (auto simp: listComponents_Inr)
  have "purls out = map (\<lambda>e. c_purl (snd e)) l"
    by (simp add: purls_def out item_component_of_item case_prod_beta)
  then show ?thesis using walk_keys[OF l] by simp
qed

lemma visits_extend:
  assumes "for_each (\<lambda>x l. addComponent n E h ai x ptype l False fmt) rs list = Inr list'"
  shows "prefix list list'"
  by (rule visits_invariant[where S = UNIV and P = "\<lambda>l. prefix list l", OF _ _ assms]) simp_all

lemma addComponent_grows:
  assumes "addComponent n E h ai r ptype list isRoot fmt = Inr list'"
  shows "prefix list list'"
proof (cases isRoot)
  case False
  then show ?thesis using assms addComponent_extends[of n E h ai r ptype list fmt list'] by simp
next
  case True
  show ?thesis
  proof (cases n)
    case 0
    then show ?thesis using assms by (simp add: addComponent_0)
  next
    case (Suc m)
    then show ?thesis using assms True visits_extend[of m E h ai ptype fmt "children h r" list list']
      by (auto simp: addComponent_Suc split: if_splits)
  qed
qed

lemma addComponent_known_purl:
  assumes "r < length h" "component_of E ai (h ! r) ptype fmt = Inr (Some c)"
    "has_key list (c_purl c)"
  shows "addComponent (Suc n) E h ai r ptype list False fmt = Inr list"
  using assms by (simp add: addComponent_Suc)

lemma addComponent_records_purl:
  assumes "built_from E h ai ptype fmt c r"
    and "addComponent n E h ai r ptype list False fmt = Inr list'"
  shows "has_key list' (c_purl c)"
proof (cases n)
  case 0
  then show ?thesis using assms by (simp add: addComponent_0)
next
  case (Suc m)
  show ?thesis
  proof (cases "has_key list (c_purl c)")
    case True
    then show ?thesis using assms Suc by (simp add: addComponent_Suc built_from_def)
  next
    case False
    then have "for_each (\<lambda>x l. addComponent m E h ai x ptype l False fmt) (children h r)
                 (list @ [(c_purl c, c)]) = Inr list'"
      using assms Suc by (simp add: addComponent_Suc built_from_def)
    then have "prefix (list @ [(c_purl c, c)]) list'" by (rule visits_extend)
    then show ?thesis by (auto simp: prefix_def has_key_def)
  qed
qed

lemma visits_provenance:
  assumes closed: "\<And>r r'. r \<in> S \<Longrightarrow> r < length h \<Longrightarrow> r' \<in> set (children h r) \<Longrightarrow> r' \<in> S"
    and run: "for_each (\<lambda>x l. addComponent n E h ai x ptype l False fmt) rs [] = Inr l"
    and rs: "set rs \<subseteq> S"
  shows "\<forall>e\<in>set l. \<exists>r\<in>S. built_from E h ai ptype fmt (snd e) r"
  by (rule visits_invariant[where S = S
        and P = "\<lambda>l. \<forall>e\<in>set l. \<exists>r\<in>S. built_from E h ai ptype fmt (snd e) r",
        OF closed _ run _ rs])
    (auto simp: built_from_def)

lemma walk_provenance:
  assumes "walk n E h ai pkg ptype fmt = Inr l"
  shows "\<forall>e\<in>set l. \<exists>r. built_from E h ai ptype fmt (snd e) r"
  by (rule walk_invariant[where P = "\<lambda>l. \<forall>e\<in>set l. \<exists>r. built_from E h ai ptype fmt (snd e) r",
        OF _ assms])
    (auto simp: built_from_def)

lemma listComponents_provenance:
  assumes "listComponents n E h ai pkg ptype fmt = Inr out"
  shows "\<forall>i\<in>set out. \<exists>r. built_from E h ai ptype fmt (item_component i) r"
proof -
  from assms obtain l where l: "walk n E h ai pkg ptype fmt = Inr l"
    and out: "out = map (\<lambda>(k, c). case fmt of Xml \<Rightarrow> Wrapped c | Json \<Rightarrow> Bare c) l"
    by (auto simp: listComponents_Inr)
  show ?thesis using walk_provenance[OF l]
    by (force simp: out item_component_of_item)
qed

lemma walk_enough_fuel:
  assumes "length h + 1 < n"
  shows "walk n E h ai pkg ptype fmt \<noteq> Inl OutOfFuel"
proof -
  have "card (pending E h ai ptype fmt []) \<le> length h"
    by (rule pending_bound(2))
  then have c: "card (pending E h ai ptype fmt []) < m" if "length h < m" for m
    using that by simp
  show ?thesis
  proof (cases pkg)
    case (PkgArray rs)
    have "for_each (\<lambda>x l. addComponent n E h ai x ptype l False fmt) rs [] \<noteq> Inl OutOfFuel"
      using addComponent_enough_fuel c[of n] assms by (intro visits_enough_fuel) simp_all
    then show ?thesis using PkgArray by (simp add: walk_def)
  next
    case (PkgObject r)
    show ?thesis
    proof (cases "ptype = ''npm''")
      case False
      then show ?thesis
        using PkgObject addComponent_enough_fuel[OF c[of n], of r] assms
        by (simp add: walk_def)
    next
      case True
      obtain m where n: "n = Suc m" using assms by (cases n) simp_all
      have "for_each (\<lambda>x l. addComponent m E h ai x ptype l False fmt) (children h r) []
              \<noteq> Inl OutOfFuel"
        using addComponent_enough_fuel c[of m] assms n by (intro visits_enough_fuel) simp_all
      then show ?thesis using PkgObject True n by (simp add: walk_def addComponent_Suc)
    qed
  qed
qed

lemma walk_more_fuel:
  assumes "walk n E h ai pkg ptype fmt \<noteq> Inl OutOfFuel"
  shows "walk (n + k) E h ai pkg ptype fmt = walk n E h ai pkg ptype fmt"
proof (cases pkg)
  case (PkgArray rs)
  let ?f = "\<lambda>x l. addComponent n E h ai x ptype l False fmt"
  let ?g = "\<lambda>x l. addComponent (n + k) E h ai x ptype l False fmt"
  have r: "for_each ?f rs [] \<noteq> Inl OutOfFuel"
    using assms PkgArray by (simp add: walk_def)
  have "for_each ?g rs [] = for_each ?f rs []"
  proof (rule for_each_agree[OF _ refl r])
    fix x l res assume "?f x l = res" "res \<noteq> Inl OutOfFuel"
    then show "?g x l = res" by (rule addComponent_more_fuel)
  qed
  then show ?thesis using PkgArray by (simp add: walk_def)
next
  case (PkgObject r)
  have "addComponent n E h ai r ptype [] (ptype = ''npm'') fmt \<noteq> Inl OutOfFuel"
    using assms PkgObject by (simp add: walk_def)
  then have "addComponent (n + k) E h ai r ptype [] (ptype = ''npm'') fmt
      = addComponent n E h ai r ptype [] (ptype = ''npm'') fmt"
    by (rule addComponent_more_fuel[OF refl])
  then show ?thesis using PkgObject by (simp add: walk_def)
qed

lemma records_of_filter: "records_of (filter is_record ds) = records_of ds"
  by (induction ds rule: records_of.induct) (simp_all add: is_record_def)

lemma drop_strings_fields:
  "pkg_name (drop_strings p) = pkg_name p" "pkg_group (drop_strings p) = pkg_group p"
  "pkg_version (drop_strings p) = pkg_version p"
  "pkg_extraneous (drop_strings p) = pkg_extraneous p"
  "pkg_scope (drop_strings p) = pkg_scope p"
  "pkg_qualifiers (drop_strings p) = pkg_qualifiers p"
  "pkg_subpath (drop_strings p) = pkg_subpath p"
  "pkg_shasum (drop_strings p) = pkg_shasum p"
  "pkg_integrity (drop_strings p) = pkg_integrity p"
  "pkg_homepage (drop_strings p) = pkg_homepage p"
  "pkg_bugs_url (drop_strings p) = pkg_bugs_url p"
  "pkg_repository_url (drop_strings p) = pkg_repository_url p"
  "pkg_keywords (drop_strings p) = pkg_keywords p"
  "pkg_description (drop_strings p) = pkg_description p"
  "pkg_license (drop_strings p) = pkg_license p"
  by (simp_all add: drop_strings_def)

lemma drop_strings_parts:
  "group_of E (drop_strings p) = group_of E p" "name_of E (drop_strings p) = name_of E p"
  "addExternalReferences (drop_strings p) fmt = addExternalReferences p fmt"
  "determinePackageType (drop_strings p) = determinePackageType p"
  "processHashes E (drop_strings p) c fmt = processHashes E p c fmt"
  unfolding group_of_def name_of_def addExternalReferences_def determinePackageType_def
    processHashes_def
  by (simp_all only: drop_strings_fields)

lemma component_of_drop_strings:
  "component_of E ai (drop_strings p) ptype fmt = component_of E ai p ptype fmt"
  unfolding component_of_def skip_types_def
  by (simp only: drop_strings_fields drop_strings_parts)

lemma children_drop_strings:
  "r < length h \<Longrightarrow> children (map drop_strings h) r = children h r"
  by (simp add: children_def drop_strings_def records_of_filter split: option.splits)

lemma for_each_cong_set:
  "(\<And>x l. x \<in> set rs \<Longrightarrow> f x l = g x l) \<Longrightarrow> for_each f rs l = for_each g rs l"
  by (induction rs arbitrary: l) (simp_all split: sum.splits)

lemma addComponent_drop_strings:
  "addComponent n E (map drop_strings h) ai r ptype list isRoot fmt
     = addComponent n E h ai r ptype list isRoot fmt"
proof (induction n arbitrary: r list isRoot)
  case 0
  then show ?case by (simp add: addComponent_0)
next
  case (Suc n)
  have kids: "for_each (\<lambda>x l. addComponent n E (map drop_strings h) ai x ptype l False fmt) rs l
     = for_each (\<lambda>x l. addComponent n E h ai x ptype l False fmt) rs l" for rs l
    by (rule for_each_cong_set) (rule Suc.IH)
  show ?case
  proof (cases "r < length h")
    case False
    then show ?thesis by (simp add: addComponent_Suc)
  next
    case True
    have e: "pkg_extraneous (drop_strings (h ! r)) = pkg_extraneous (h ! r)"
      by (simp add: drop_strings_def)
    show ?thesis
      using True
      by (simp add: addComponent_Suc[of n E "map drop_strings h"] addComponent_Suc[of n E h]
          children_drop_strings component_of_drop_strings kids e
          split: sum.splits option.splits)
  qed
qed

section \<open>The walk: what is in the output list\<close>

lemma set_map_filter_eq: "set (List.map_filter f xs) = {y. \<exists>x\<in>set xs. f x = Some y}"
  by (induction xs) (auto simp: map_filter_simps split: option.splits)

lemma purl_of_Some:
  "purl_of E h ai ptype fmt r = Some p \<longleftrightarrow>
     (\<exists>c. built_from E h ai ptype fmt c r \<and> c_purl c = p)"
  by (auto simp: purl_of_def built_from_def split: sum.splits option.splits)

lemma dep_purls_iff:
  "p \<in> set (dep_purls E h ai ptype fmt r) \<longleftrightarrow>
     (\<exists>r'\<in>set (children h r). purl_of E h ai ptype fmt r' = Some p)"
  by (simp add: dep_purls_def set_map_filter_eq)

lemma same_purl_same_depsD:
  assumes "same_purl_same_deps E h ai ptype fmt"
    and "purl_of E h ai ptype fmt r = Some p" "purl_of E h ai ptype fmt r' = Some p"
  shows "set (dep_purls E h ai ptype fmt r) = set (dep_purls E h ai ptype fmt r')"
proof -
  have "r < length h" "r' < length h"
    using assms(2,3) by (auto simp: purl_of_def split: if_splits)
  then have "r \<in> set [0..<length h]" "r' \<in> set [0..<length h]" by simp_all
  then show ?thesis
    using assms unfolding same_purl_same_deps_def list_all_iff by fastforce
qed

lemma visits_sourced:
  assumes call: "\<And>x l m. x \<in> S \<Longrightarrow> addComponent n E h ai x ptype l False fmt = Inr m \<Longrightarrow>
      \<forall>e\<in>set m. e \<in> set l \<or>
        (\<exists>r\<in>S. built_from E h ai ptype fmt (snd e) r
               \<and> set (dep_purls E h ai ptype fmt r) \<subseteq> fst ` set m)"
    and run: "for_each (\<lambda>x l. addComponent n E h ai x ptype l False fmt) rs l = Inr l'"
    and rs: "set rs \<subseteq> S"
  shows "(\<forall>e\<in>set l'. e \<in> set l \<or>
           (\<exists>r\<in>S. built_from E h ai ptype fmt (snd e) r
                  \<and> set (dep_purls E h ai ptype fmt r) \<subseteq> fst ` set l'))
         \<and> set (List.map_filter (purl_of E h ai ptype fmt) rs) \<subseteq> fst ` set l'"
  using run rs
proof (induction rs arbitrary: l)
  case Nil
  then show ?case by (simp add: map_filter_simps)
next
  case (Cons x rs)
  let ?f = "\<lambda>x l. addComponent n E h ai x ptype l False fmt"
  let ?src = "\<lambda>k e. \<exists>r\<in>S. built_from E h ai ptype fmt (snd e) r
                  \<and> set (dep_purls E h ai ptype fmt r) \<subseteq> k"
  from Cons.prems(1) obtain m where m: "?f x l = Inr m" "for_each ?f rs m = Inr l'"
    by (auto split: sum.splits)
  have pm: "prefix m l'" using m(2) by (rule visits_extend)
  then have sub: "fst ` set m \<subseteq> fst ` set l'" by (auto simp: prefix_def)
  have x: "x \<in> S" and rs: "set rs \<subseteq> S" using Cons.prems(2) by simp_all
  have IH1: "\<forall>e\<in>set l'. e \<in> set m \<or> ?src (fst ` set l') e"
    and IH2: "set (List.map_filter (purl_of E h ai ptype fmt) rs) \<subseteq> fst ` set l'"
    using Cons.IH[OF m(2) rs] by simp_all
  have c1: "\<forall>e\<in>set m. e \<in> set l \<or> ?src (fst ` set m) e"
    using x m(1) by (rule call)
  have mono: "?src (fst ` set l') e" if "?src (fst ` set m) e" for e
  proof -
    from that obtain r where "r \<in> S" "built_from E h ai ptype fmt (snd e) r"
      "set (dep_purls E h ai ptype fmt r) \<subseteq> fst ` set m" by blast
    then show ?thesis using sub by (intro bexI[of _ r]) auto
  qed
  have first: "\<forall>e\<in>set l'. e \<in> set l \<or> ?src (fst ` set l') e"
  proof
    fix e assume e: "e \<in> set l'"
    show "e \<in> set l \<or> ?src (fst ` set l') e"
    proof (cases "e \<in> set m")
      case True
      then have "e \<in> set l \<or> ?src (fst ` set m) e" using c1 by simp
      then show ?thesis using mono[of e] by blast
    next
      case False
      then show ?thesis using IH1 e by blast
    qed
  qed
  have own: "p \<in> fst ` set l'" if "purl_of E h ai ptype fmt x = Some p" for p
  proof -
    from that obtain c where c: "built_from E h ai ptype fmt c x" "c_purl c = p"
      by (auto simp: purl_of_Some)
    have "has_key m (c_purl c)" using c(1) m(1) by (rule addComponent_records_purl)
    then have "p \<in> fst ` set m" using c(2) by (simp add: has_key_def)
    then show ?thesis using sub by (rule subsetD[rotated])
  qed
  have second: "set (List.map_filter (purl_of E h ai ptype fmt) (x # rs)) \<subseteq> fst ` set l'"
  proof
    fix p assume "p \<in> set (List.map_filter (purl_of E h ai ptype fmt) (x # rs))"
    then have "purl_of E h ai ptype fmt x = Some p
        \<or> p \<in> set (List.map_filter (purl_of E h ai ptype fmt) rs)"
      unfolding set_map_filter_eq by auto
    then show "p \<in> fst ` set l'" using own IH2 by (elim disjE) (simp, rule subsetD)
  qed
  show ?case using first second by (rule conjI)
qed

lemma addComponent_unchanged_or_added:
  assumes "addComponent (Suc n) E h ai x ptype l False fmt = Inr m"
  obtains "m = l"
  | c where "built_from E h ai ptype fmt c x" "\<not> has_key l (c_purl c)"
      "for_each (\<lambda>x l. addComponent n E h ai x ptype l False fmt) (children h x)
         (l @ [(c_purl c, c)]) = Inr m"
proof -
  have x: "x < length h" using assms by (simp add: addComponent_Suc split: if_splits)
  show ?thesis
  proof (cases "pkg_extraneous (h ! x)")
    case True
    then show ?thesis using assms x that(1) by (simp add: addComponent_Suc)
  next
    case ne: False
    show ?thesis
    proof (cases "component_of E ai (h ! x) ptype fmt")
      case (Inl e)
      then show ?thesis using assms x ne by (simp add: addComponent_Suc)
    next
      case (Inr oc)
      show ?thesis
      proof (cases oc)
        case None
        then show ?thesis using assms x ne Inr that(1) by (simp add: addComponent_Suc)
      next
        case (Some c)
        show ?thesis
        proof (cases "has_key l (c_purl c)")
          case True
          then show ?thesis using assms x ne Inr Some that(1) by (simp add: addComponent_Suc)
        next
          case False
          have "built_from E h ai ptype fmt c x"
            using x ne Inr Some by (simp add: built_from_def)
          moreover have "for_each (\<lambda>x l. addComponent n E h ai x ptype l False fmt)
              (children h x) (l @ [(c_purl c, c)]) = Inr m"
            using assms x ne Inr Some False by (simp add: addComponent_Suc)
          ultimately show ?thesis using that(2) False by blast
        qed
      qed
    qed
  qed
qed

lemma addComponent_sourced:
  assumes closed: "\<And>r c r'. r \<in> S \<Longrightarrow> built_from E h ai ptype fmt c r
      \<Longrightarrow> r' \<in> set (children h r) \<Longrightarrow> r' \<in> S"
  shows "addComponent n E h ai x ptype l False fmt = Inr m \<Longrightarrow> x \<in> S \<Longrightarrow>
      \<forall>e\<in>set m. e \<in> set l \<or>
        (\<exists>r\<in>S. built_from E h ai ptype fmt (snd e) r
               \<and> set (dep_purls E h ai ptype fmt r) \<subseteq> fst ` set m)"
proof (induction n arbitrary: x l m)
  case 0
  then show ?case by (simp add: addComponent_0)
next
  case (Suc n)
  let ?f = "\<lambda>x l. addComponent n E h ai x ptype l False fmt"
  let ?src = "\<lambda>k e. \<exists>r\<in>S. built_from E h ai ptype fmt (snd e) r
                  \<and> set (dep_purls E h ai ptype fmt r) \<subseteq> k"
  from Suc.prems(1) show ?case
  proof (cases rule: addComponent_unchanged_or_added)
    case 1
    then show ?thesis by simp
  next
    case (2 c)
    have kids: "set (children h x) \<subseteq> S"
      using closed[OF Suc.prems(2) 2(1)] by blast
    have v: "(\<forall>e\<in>set m. e \<in> set (l @ [(c_purl c, c)]) \<or> ?src (fst ` set m) e)
         \<and> set (List.map_filter (purl_of E h ai ptype fmt) (children h x)) \<subseteq> fst ` set m"
      using _ 2(3) kids
    proof (rule visits_sourced)
      fix y l' m' assume "y \<in> S" "?f y l' = Inr m'"
      then show "\<forall>e\<in>set m'. e \<in> set l' \<or> ?src (fst ` set m') e"
        by (rule Suc.IH[rotated])
    qed
    then have v1: "\<forall>e\<in>set m. e \<in> set (l @ [(c_purl c, c)]) \<or> ?src (fst ` set m) e"
      and v2: "set (dep_purls E h ai ptype fmt x) \<subseteq> fst ` set m"
      by (simp_all add: dep_purls_def)
    have own: "?src (fst ` set m) (c_purl c, c)"
      using Suc.prems(2) 2(1) v2 by (intro bexI[of _ x]) simp_all
    show ?thesis
    proof
      fix e assume "e \<in> set m"
      then have "e \<in> set (l @ [(c_purl c, c)]) \<or> ?src (fst ` set m) e" using v1 by simp
      then have "e \<in> set l \<or> e = (c_purl c, c) \<or> ?src (fst ` set m) e" by auto
      then show "e \<in> set l \<or> ?src (fst ` set m) e"
        using own by (elim disjE) simp_all
    qed
  qed
qed

lemma walk_tops:
  assumes "walk n E h ai pkg ptype fmt = Inr l"
  shows "\<exists>m. for_each (\<lambda>x l. addComponent m E h ai x ptype l False fmt)
               (top_records h pkg ptype) [] = Inr l"
  using assms
proof (cases rule: walk_cases)
  case (1 rs)
  then have "top_records h pkg ptype = rs" by (auto simp: top_records_def)
  then show ?thesis using 1(1) by auto
next
  case (2 r m)
  then have "top_records h pkg ptype = children h r" by (simp add: top_records_def)
  then show ?thesis using 2(6) by auto
next
  case (3 r)
  then have "top_records h pkg ptype = []" by (simp add: top_records_def)
  then show ?thesis using 3(3) by simp
qed

lemma walk_entry_keys:
  assumes "walk n E h ai pkg ptype fmt = Inr l" "e \<in> set l"
  shows "fst e = c_purl (snd e)"
proof -
  have "\<forall>e\<in>set l. fst e = c_purl (snd e)"
    by (rule walk_invariant[where P = "\<lambda>l. \<forall>e\<in>set l. fst e = c_purl (snd e)", OF _ assms(1)])
      auto
  then show ?thesis using assms(2) by simp
qed

lemma walk_sourced:
  assumes "walk n E h ai pkg ptype fmt = Inr l"
  shows "\<forall>e\<in>set l. \<exists>r\<in>live E h ai ptype fmt (set (top_records h pkg ptype)).
            built_from E h ai ptype fmt (snd e) r
            \<and> set (dep_purls E h ai ptype fmt r) \<subseteq> fst ` set l"
    and "set (List.map_filter (purl_of E h ai ptype fmt) (top_records h pkg ptype))
           \<subseteq> fst ` set l"
proof -
  let ?S = "live E h ai ptype fmt (set (top_records h pkg ptype))"
  obtain m where m: "for_each (\<lambda>x l. addComponent m E h ai x ptype l False fmt)
               (top_records h pkg ptype) [] = Inr l"
    using walk_tops[OF assms] by blast
  have tops: "set (top_records h pkg ptype) \<subseteq> ?S" by (auto intro: live.top)
  have v: "(\<forall>e\<in>set l. e \<in> set [] \<or>
           (\<exists>r\<in>?S. built_from E h ai ptype fmt (snd e) r
                  \<and> set (dep_purls E h ai ptype fmt r) \<subseteq> fst ` set l))
         \<and> set (List.map_filter (purl_of E h ai ptype fmt) (top_records h pkg ptype))
             \<subseteq> fst ` set l"
    using _ m tops
  proof (rule visits_sourced)
    fix x l' m' assume x: "x \<in> ?S"
      and run: "addComponent m E h ai x ptype l' False fmt = Inr m'"
    show "\<forall>e\<in>set m'. e \<in> set l' \<or>
        (\<exists>r\<in>?S. built_from E h ai ptype fmt (snd e) r
               \<and> set (dep_purls E h ai ptype fmt r) \<subseteq> fst ` set m')"
      using _ run x
    proof (rule addComponent_sourced)
      fix r c r' assume "r \<in> ?S" "built_from E h ai ptype fmt c r" "r' \<in> set (children h r)"
      then show "r' \<in> ?S" by (rule live.dep)
    qed
  qed
  show "\<forall>e\<in>set l. \<exists>r\<in>?S. built_from E h ai ptype fmt (snd e) r
            \<and> set (dep_purls E h ai ptype fmt r) \<subseteq> fst ` set l"
    using v by simp
  show "set (List.map_filter (purl_of E h ai ptype fmt) (top_records h pkg ptype))
           \<subseteq> fst ` set l"
    using v by simp
qed

lemma walk_complete:
  assumes same: "same_purl_same_deps E h ai ptype fmt"
    and run: "walk n E h ai pkg ptype fmt = Inr l"
  shows "fst ` set l =
     {p. \<exists>r\<in>live E h ai ptype fmt (set (top_records h pkg ptype)).
           purl_of E h ai ptype fmt r = Some p}"
proof (intro set_eqI iffI)
  let ?S = "live E h ai ptype fmt (set (top_records h pkg ptype))"
  fix p assume "p \<in> fst ` set l"
  then obtain e where e: "e \<in> set l" "fst e = p" by auto
  then obtain r where r: "r \<in> ?S" "built_from E h ai ptype fmt (snd e) r"
    using walk_sourced(1)[OF run] by blast
  have "c_purl (snd e) = p" using walk_entry_keys[OF run e(1)] e(2) by simp
  then have "purl_of E h ai ptype fmt r = Some p" using r(2) by (auto simp: purl_of_Some)
  then show "p \<in> {p. \<exists>r\<in>?S. purl_of E h ai ptype fmt r = Some p}" using r(1) by blast
next
  let ?S = "live E h ai ptype fmt (set (top_records h pkg ptype))"
  fix p assume "p \<in> {p. \<exists>r\<in>?S. purl_of E h ai ptype fmt r = Some p}"
  then obtain r where r: "r \<in> ?S" "purl_of E h ai ptype fmt r = Some p" by blast
  from r(1) have "\<forall>p. purl_of E h ai ptype fmt r = Some p \<longrightarrow> p \<in> fst ` set l"
  proof (induction rule: live.induct)
    case (top r)
    show ?case
    proof (intro allI impI)
      fix p assume "purl_of E h ai ptype fmt r = Some p"
      then have "p \<in> set (List.map_filter (purl_of E h ai ptype fmt) (top_records h pkg ptype))"
        using top unfolding set_map_filter_eq by blast
      then show "p \<in> fst ` set l" using walk_sourced(2)[OF run] by blast
    qed
  next
    case (dep r c r')
    show ?case
    proof (intro allI impI)
      fix p assume p: "purl_of E h ai ptype fmt r' = Some p"
      have pr: "purl_of E h ai ptype fmt r = Some (c_purl c)"
        using dep(2) by (auto simp: purl_of_Some)
      then have "c_purl c \<in> fst ` set l" using dep(4) by simp
      then obtain e where e: "e \<in> set l" "fst e = c_purl c" by auto
      then obtain src where src: "built_from E h ai ptype fmt (snd e) src"
        "set (dep_purls E h ai ptype fmt src) \<subseteq> fst ` set l"
        using walk_sourced(1)[OF run] by blast
      have "c_purl (snd e) = c_purl c" using walk_entry_keys[OF run e(1)] e(2) by simp
      then have ps: "purl_of E h ai ptype fmt src = Some (c_purl c)"
        using src(1) by (auto simp: purl_of_Some)
      have "set (dep_purls E h ai ptype fmt r) = set (dep_purls E h ai ptype fmt src)"
        using same pr ps by (rule same_purl_same_depsD)
      moreover have "p \<in> set (dep_purls E h ai ptype fmt r)"
        using dep(3) p by (auto simp: dep_purls_iff)
      ultimately show "p \<in> fst ` set l" using src(2) by blast
    qed
  qed
  then show "p \<in> fst ` set l" using r(2) by simp
qed

lemma listComponents_walk:
  assumes "listComponents n E h ai pkg ptype fmt = Inr out"
  obtains l where "walk n E h ai pkg ptype fmt = Inr l"
    and "purls out = map fst l" and "map item_component out = map snd l"
proof -
  from assms obtain l where l: "walk n E h ai pkg ptype fmt = Inr l"
    and out: "out = map (\<lambda>(k, c). case fmt of Xml \<Rightarrow> Wrapped c | Json \<Rightarrow> Bare c) l"
    by (auto simp: listComponents_Inr)
  have "purls out = map (\<lambda>e. c_purl (snd e)) l"
    by (simp add: purls_def out item_component_of_item case_prod_beta)
  then have a: "purls out = map fst l" using walk_keys[OF l] by simp
  have b: "map item_component out = map snd l"
    by (simp add: out item_component_of_item case_prod_beta)
  show ?thesis using that l a b by blast
qed

lemma listComponents_output:
  assumes "listComponents n E h ai pkg ptype fmt = Inr out"
  shows "set (List.map_filter (purl_of E h ai ptype fmt) (top_records h pkg ptype))
           \<subseteq> set (purls out)"
    and "\<forall>i\<in>set out. \<exists>r\<in>live E h ai ptype fmt (set (top_records h pkg ptype)).
            built_from E h ai ptype fmt (item_component i) r
            \<and> set (dep_purls E h ai ptype fmt r) \<subseteq> set (purls out)"
    and "same_purl_same_deps E h ai ptype fmt \<Longrightarrow>
           set (purls out) =
             {p. \<exists>r\<in>live E h ai ptype fmt (set (top_records h pkg ptype)).
                   purl_of E h ai ptype fmt r = Some p}"
proof -
  from assms obtain l where l: "walk n E h ai pkg ptype fmt = Inr l"
    and p: "purls out = map fst l" and c: "map item_component out = map snd l"
    by (rule listComponents_walk)
  have keys: "set (purls out) = fst ` set l" using p by simp
  show "set (List.map_filter (purl_of E h ai ptype fmt) (top_records h pkg ptype))
           \<subseteq> set (purls out)"
    using walk_sourced(2)[OF l] keys by simp
  show "\<forall>i\<in>set out. \<exists>r\<in>live E h ai ptype fmt (set (top_records h pkg ptype)).
            built_from E h ai ptype fmt (item_component i) r
            \<and> set (dep_purls E h ai ptype fmt r) \<subseteq> set (purls out)"
  proof
    fix i assume "i \<in> set out"
    then have "item_component i \<in> set (map item_component out)" by simp
    then have "item_component i \<in> snd ` set l" using c by simp
    then obtain e where "e \<in> set l" "snd e = item_component i" by auto
    then show "\<exists>r\<in>live E h ai ptype fmt (set (top_records h pkg ptype)).
            built_from E h ai ptype fmt (item_component i) r
            \<and> set (dep_purls E h ai ptype fmt r) \<subseteq> set (purls out)"
      using walk_sourced(1)[OF l] keys by force
  qed
  show "set (purls out) =
             {p. \<exists>r\<in>live E h ai ptype fmt (set (top_records h pkg ptype)).
                   purl_of E h ai ptype fmt r = Some p}"
    if "same_purl_same_deps E h ai ptype fmt"
    using walk_complete[OF that l] keys by simp
qed

section \<open>One component for each package URL\<close>

text \<open>
  C1, as the code has it.  A call of \<^verbatim>\<open>addComponent\<close> only appends to the list, so the
  component entered first for a package URL stays, and a record whose package URL is
  in the list already is dropped: the call returns the list as it is and does not look
  at the dependencies of the record.  After the visit of a record that is neither
  extraneous nor filtered, its package URL is in the list.  Of the list
  \<^verbatim>\<open>listComponents\<close> returns: the package URLs are distinct; the package URL of every
  record visited first that turns into a component is there; every component is built
  from a record that is reached from the records visited first through records that
  turn into components, and the package URLs of the dependencies of that record are
  there; and when records with the same package URL have dependencies with the same
  package URLs, the package URLs of the list are exactly those of the records reached
  in this way.
\<close>

theorem one_component_per_purl:
  "(addComponent n E h ai r ptype list isRoot fmt = Inr list' \<longrightarrow> prefix list list')
   \<and> (r < length h \<and> component_of E ai (h ! r) ptype fmt = Inr (Some c)
        \<and> has_key list (c_purl c)
        \<longrightarrow> addComponent (Suc n) E h ai r ptype list False fmt = Inr list)
   \<and> (r < length h \<and> \<not> pkg_extraneous (h ! r)
        \<and> component_of E ai (h ! r) ptype fmt = Inr (Some c)
        \<and> addComponent n E h ai r ptype list False fmt = Inr list'
        \<longrightarrow> has_key list' (c_purl c))
   \<and> (listComponents n E h ai pkg ptype fmt = Inr out \<longrightarrow>
        distinct (purls out)
        \<and> set (List.map_filter (purl_of E h ai ptype fmt) (top_records h pkg ptype))
            \<subseteq> set (purls out)
        \<and> (\<forall>i\<in>set out. \<exists>r\<in>live E h ai ptype fmt (set (top_records h pkg ptype)).
              built_from E h ai ptype fmt (item_component i) r
              \<and> set (dep_purls E h ai ptype fmt r) \<subseteq> set (purls out))
        \<and> (same_purl_same_deps E h ai ptype fmt \<longrightarrow>
              set (purls out) =
                {p. \<exists>r\<in>live E h ai ptype fmt (set (top_records h pkg ptype)).
                      purl_of E h ai ptype fmt r = Some p}))"
  using listComponents_distinct[of n E h ai pkg ptype fmt out]
    listComponents_output[of n E h ai pkg ptype fmt out]
    addComponent_grows[of n E h ai r ptype list isRoot fmt list']
    addComponent_known_purl[of r h E ai ptype fmt c list n]
    addComponent_records_purl[of E h ai ptype fmt c r n list list']
  by (simp add: built_from_def)

lemma example_walk:
  "map_sum id purls
     (listComponents 4 example_collaborators example_store None (PkgObject 0) ''npm'' Json)
   = Inr [''pkg:npm/a@1.0.0'', ''pkg:npm/c@1.0.0'', ''pkg:npm/b@1.0.0'']"
  by code_simp

lemma example_second_copy:
  "map_sum id (map_option c_purl)
     (component_of example_collaborators None (example_store ! 4) ''npm'' Json)
   = Inr (Some ''pkg:npm/c@1.0.0'')"
  by code_simp

lemma cyclic_walk:
  "map_sum id purls
     (listComponents 5 example_collaborators cyclic_store None (PkgObject 0) ''npm'' Json)
   = Inr [''pkg:npm/x@1.0.0'', ''pkg:npm/y@1.0.0'']"
  by code_simp

lemma example_tops:
  "List.map_filter (purl_of example_collaborators example_store None ''npm'' Json)
     (top_records example_store (PkgObject 0) ''npm'')
   = [''pkg:npm/a@1.0.0'', ''pkg:npm/b@1.0.0'']"
  by code_simp

lemma cyclic_same_deps:
  "same_purl_same_deps example_collaborators cyclic_store None ''npm'' Json"
  by code_simp

theorem one_component_per_purl_witness:
  "(\<exists>out. listComponents 4 example_collaborators example_store None (PkgObject 0) ''npm'' Json
            = Inr out
          \<and> purls out = [''pkg:npm/a@1.0.0'', ''pkg:npm/c@1.0.0'', ''pkg:npm/b@1.0.0'']
          \<and> distinct (purls out)
          \<and> set [''pkg:npm/a@1.0.0'', ''pkg:npm/b@1.0.0''] \<subseteq> set (purls out))
   \<and> addComponent 3 example_collaborators example_store None 4 ''npm''
        [(''pkg:npm/c@1.0.0'', example_component)] False Json
      = Inr [(''pkg:npm/c@1.0.0'', example_component)]
   \<and> same_purl_same_deps example_collaborators cyclic_store None ''npm'' Json
   \<and> (\<exists>out. listComponents 5 example_collaborators cyclic_store None (PkgObject 0) ''npm'' Json
              = Inr out
            \<and> purls out = [''pkg:npm/x@1.0.0'', ''pkg:npm/y@1.0.0'']
            \<and> set (purls out) =
                {p. \<exists>r\<in>live example_collaborators cyclic_store None ''npm'' Json
                          (set (top_records cyclic_store (PkgObject 0) ''npm'')).
                      purl_of example_collaborators cyclic_store None ''npm'' Json r = Some p})"
proof -
  obtain out where out:
    "listComponents 4 example_collaborators example_store None (PkgObject 0) ''npm'' Json = Inr out"
    "purls out = [''pkg:npm/a@1.0.0'', ''pkg:npm/c@1.0.0'', ''pkg:npm/b@1.0.0'']"
    using example_walk
    by (cases "listComponents 4 example_collaborators example_store None (PkgObject 0) ''npm'' Json")
      auto
  obtain out' where out':
    "listComponents 5 example_collaborators cyclic_store None (PkgObject 0) ''npm'' Json = Inr out'"
    "purls out' = [''pkg:npm/x@1.0.0'', ''pkg:npm/y@1.0.0'']"
    using cyclic_walk
    by (cases "listComponents 5 example_collaborators cyclic_store None (PkgObject 0) ''npm'' Json")
      auto
  obtain c where c:
    "component_of example_collaborators None (example_store ! 4) ''npm'' Json = Inr (Some c)"
    "c_purl c = ''pkg:npm/c@1.0.0''"
    using example_second_copy
    by (cases "component_of example_collaborators None (example_store ! 4) ''npm'' Json")
      auto
  have len: "4 < length example_store" by (simp add: example_store_def)
  have key: "has_key [(''pkg:npm/c@1.0.0'', example_component)] (c_purl c)"
    by (simp add: has_key_def c(2))
  have first: "distinct (purls out)
      \<and> set [''pkg:npm/a@1.0.0'', ''pkg:npm/b@1.0.0''] \<subseteq> set (purls out)"
    using one_component_per_purl[where n = 4 and E = example_collaborators
        and h = example_store and ai = None and pkg = "PkgObject 0" and ptype = "''npm''"
        and fmt = Json and out = out and r = 0 and list = "[]" and isRoot = False
        and list' = "[]" and c = c]
      out(1) example_tops
    by simp
  have second: "addComponent 3 example_collaborators example_store None 4 ''npm''
        [(''pkg:npm/c@1.0.0'', example_component)] False Json
      = Inr [(''pkg:npm/c@1.0.0'', example_component)]"
    using one_component_per_purl[where n = 2 and E = example_collaborators
        and h = example_store and ai = None and pkg = "PkgObject 0" and ptype = "''npm''"
        and fmt = Json and out = out and r = 4
        and list = "[(''pkg:npm/c@1.0.0'', example_component)]" and isRoot = False
        and list' = "[]" and c = c]
      c(1) len key
    by (simp add: numeral_3_eq_3 numeral_2_eq_2)
  have third: "set (purls out') =
                {p. \<exists>r\<in>live example_collaborators cyclic_store None ''npm'' Json
                          (set (top_records cyclic_store (PkgObject 0) ''npm'')).
                      purl_of example_collaborators cyclic_store None ''npm'' Json r = Some p}"
    using one_component_per_purl[where n = 5 and E = example_collaborators
        and h = cyclic_store and ai = None and pkg = "PkgObject 0" and ptype = "''npm''"
        and fmt = Json and out = out' and r = 0 and list = "[]" and isRoot = False
        and list' = "[]" and c = c]
      out'(1) cyclic_same_deps
    by simp
  show ?thesis using first second third out out' cyclic_same_deps by blast
qed

text \<open>
  C1 as stated fails for the package URLs of the forest.  In \<open>example_store\<close> the
  record \<^verbatim>\<open>d\<close> is a dependency of the second record for \<^verbatim>\<open>c@1.0.0\<close>, which is a
  dependency of \<^verbatim>\<open>b\<close>, which is a dependency of the root, and \<^verbatim>\<open>d\<close> would turn into a
  component.  The second record for \<^verbatim>\<open>c@1.0.0\<close> is dropped before its dependencies are
  looked at, and \<^verbatim>\<open>pkg:npm/d@1.0.0\<close> is not in the output.
\<close>

theorem duplicate_hides_dependency_counterexample:
  "2 \<in> set (children example_store 0) \<and> 4 \<in> set (children example_store 2)
   \<and> 5 \<in> set (children example_store 4)
   \<and> purl_of example_collaborators example_store None ''npm'' Json 5 = Some ''pkg:npm/d@1.0.0''
   \<and> map_sum id purls
       (listComponents 9 example_collaborators example_store None (PkgObject 0) ''npm'' Json)
     = Inr [''pkg:npm/a@1.0.0'', ''pkg:npm/c@1.0.0'', ''pkg:npm/b@1.0.0'']"
  by code_simp

section \<open>Termination\<close>

text \<open>
  C2, as the code has it.  The store has finitely many records, and with more than
  \<open>length h + 1\<close> levels of recursion the walk ends, in a list or in an exception,
  whatever the shape of the object graph; more levels give the same answer.  The
  strings among the \<^verbatim>\<open>dependencies\<close> play no part: the walk of the store without them
  gives the same answer.  Of the list: the package URLs are distinct; the package URL
  of every record visited first that turns into a component is there; every component
  is built from a record reached from the records visited first through records that
  turn into components, and the package URLs of the dependencies of that record are
  there; and when records with the same package URL have dependencies with the same
  package URLs, the package URLs of the list are exactly those of the records reached
  in this way.
\<close>

theorem walk_terminates:
  "length h + 1 < n \<Longrightarrow>
     listComponents n E h ai pkg ptype fmt \<noteq> Inl OutOfFuel
     \<and> listComponents (n + k) E h ai pkg ptype fmt = listComponents n E h ai pkg ptype fmt
     \<and> listComponents n E (map drop_strings h) ai pkg ptype fmt
         = listComponents n E h ai pkg ptype fmt
     \<and> (\<forall>out. listComponents n E h ai pkg ptype fmt = Inr out \<longrightarrow>
          distinct (purls out)
          \<and> set (List.map_filter (purl_of E h ai ptype fmt) (top_records h pkg ptype))
              \<subseteq> set (purls out)
          \<and> (\<forall>i\<in>set out. \<exists>r\<in>live E h ai ptype fmt (set (top_records h pkg ptype)).
                built_from E h ai ptype fmt (item_component i) r
                \<and> set (dep_purls E h ai ptype fmt r) \<subseteq> set (purls out))
          \<and> (same_purl_same_deps E h ai ptype fmt \<longrightarrow>
                set (purls out) =
                  {p. \<exists>r\<in>live E h ai ptype fmt (set (top_records h pkg ptype)).
                        purl_of E h ai ptype fmt r = Some p}))"
proof -
  assume n: "length h + 1 < n"
  have w: "walk n E h ai pkg ptype fmt \<noteq> Inl OutOfFuel"
    using n by (rule walk_enough_fuel)
  have d: "walk n E (map drop_strings h) ai pkg ptype fmt = walk n E h ai pkg ptype fmt"
    by (cases pkg) (simp_all add: walk_def addComponent_drop_strings)
  have a: "listComponents n E h ai pkg ptype fmt \<noteq> Inl OutOfFuel"
    using w by (simp add: listComponents_Inl)
  have b: "listComponents (n + k) E h ai pkg ptype fmt = listComponents n E h ai pkg ptype fmt"
    using walk_more_fuel[OF w, of k] by (simp add: listComponents_def)
  have c: "listComponents n E (map drop_strings h) ai pkg ptype fmt
         = listComponents n E h ai pkg ptype fmt"
    using d by (simp add: listComponents_def)
  show ?thesis
    using a b c listComponents_distinct[of n E h ai pkg ptype fmt]
      listComponents_output[of n E h ai pkg ptype fmt]
    by blast
qed

theorem walk_terminates_witness:
  "listComponents 5 example_collaborators cyclic_store None (PkgObject 0) ''npm'' Json
     \<noteq> Inl OutOfFuel
   \<and> listComponents (5 + 2) example_collaborators cyclic_store None (PkgObject 0) ''npm'' Json
     = listComponents 5 example_collaborators cyclic_store None (PkgObject 0) ''npm'' Json
   \<and> same_purl_same_deps example_collaborators cyclic_store None ''npm'' Json
   \<and> (\<exists>out. listComponents 5 example_collaborators cyclic_store None (PkgObject 0) ''npm'' Json
              = Inr out
            \<and> purls out = [''pkg:npm/x@1.0.0'', ''pkg:npm/y@1.0.0''] \<and> distinct (purls out)
            \<and> set (purls out) =
                {p. \<exists>r\<in>live example_collaborators cyclic_store None ''npm'' Json
                          (set (top_records cyclic_store (PkgObject 0) ''npm'')).
                      purl_of example_collaborators cyclic_store None ''npm'' Json r = Some p})"
proof -
  have len: "length cyclic_store + 1 < 5" by (simp add: cyclic_store_def)
  obtain out where out:
    "listComponents 5 example_collaborators cyclic_store None (PkgObject 0) ''npm'' Json = Inr out"
    "purls out = [''pkg:npm/x@1.0.0'', ''pkg:npm/y@1.0.0'']"
    using cyclic_walk
    by (cases "listComponents 5 example_collaborators cyclic_store None (PkgObject 0) ''npm'' Json")
      auto
  note t = walk_terminates[OF len, where E = example_collaborators and ai = None
      and pkg = "PkgObject 0" and ptype = "''npm''" and fmt = Json and k = 2]
  have "distinct (purls out)
      \<and> set (purls out) =
                {p. \<exists>r\<in>live example_collaborators cyclic_store None ''npm'' Json
                          (set (top_records cyclic_store (PkgObject 0) ''npm'')).
                      purl_of example_collaborators cyclic_store None ''npm'' Json r = Some p}"
    using t out(1) cyclic_same_deps by simp
  then show ?thesis using t out cyclic_same_deps by blast
qed

text \<open>
  C2 as stated fails for packages that refer to each other and are never visited.  In
  \<open>hidden_cycle_store\<close> the packages \<^verbatim>\<open>x\<close> and \<^verbatim>\<open>y\<close> depend on each other, and \<^verbatim>\<open>x\<close> is a
  dependency of the copy of \<^verbatim>\<open>a@1.0.0\<close> nested under \<^verbatim>\<open>b\<close>.  The copy is dropped, since
  \<^verbatim>\<open>a@1.0.0\<close> is in the list already, and the walk ends with no component for \<^verbatim>\<open>x\<close> and
  none for \<^verbatim>\<open>y\<close>.
\<close>

theorem unvisited_cycle_counterexample:
  "2 \<in> set (children hidden_cycle_store 0) \<and> 3 \<in> set (children hidden_cycle_store 2)
   \<and> 4 \<in> set (children hidden_cycle_store 3)
   \<and> 5 \<in> set (children hidden_cycle_store 4) \<and> 4 \<in> set (children hidden_cycle_store 5)
   \<and> purl_of example_collaborators hidden_cycle_store None ''npm'' Json 4
       = Some ''pkg:npm/x@1.0.0''
   \<and> purl_of example_collaborators hidden_cycle_store None ''npm'' Json 5
       = Some ''pkg:npm/y@1.0.0''
   \<and> map_sum id purls
       (listComponents 8 example_collaborators hidden_cycle_store None (PkgObject 0) ''npm'' Json)
     = Inr [''pkg:npm/a@1.0.0'', ''pkg:npm/b@1.0.0'']"
  by code_simp

section \<open>Packages of type annotations\<close>

lemma skip_types_skipped:
  assumes "r < length h" "skip_types E ptype (h ! r)"
  shows "addComponent (Suc n) E h ai r ptype list False fmt = Inr list"
  using assms by (simp add: addComponent_Suc component_of_def)

lemma listComponents_no_types:
  assumes "listComponents n E h ai pkg ''npm'' fmt = Inr out" "i \<in> set out"
  shows "c_group (item_component i) \<noteq> ''types'' \<and> \<not> prefix ''@types'' (c_name (item_component i))"
proof -
  obtain r where "built_from E h ai ''npm'' fmt (item_component i) r"
    using listComponents_provenance[OF assms(1)] assms(2) by blast
  then have c: "component_of E ai (h ! r) ''npm'' fmt = Inr (Some (item_component i))"
    by (simp add: built_from_def)
  show ?thesis
    using component_of_Some(1)[OF c] component_of_Some(3)[OF c] component_of_Some(4)[OF c]
    by (simp add: skip_types_def)
qed

lemma skip_types_not_built:
  assumes "skip_types E ptype (h ! r)"
  shows "\<not> built_from E h ai ptype fmt c r"
  using assms by (simp add: built_from_def component_of_def)

lemma listComponents_not_skipped:
  assumes "listComponents n E h ai pkg ptype fmt = Inr out" "i \<in> set out"
  shows "\<exists>r. built_from E h ai ptype fmt (item_component i) r \<and> \<not> skip_types E ptype (h ! r)"
proof -
  obtain r where r: "built_from E h ai ptype fmt (item_component i) r"
    using listComponents_provenance[OF assms(1)] assms(2) by blast
  then have "\<not> skip_types E ptype (h ! r)" using skip_types_not_built by blast
  then show ?thesis using r by blast
qed

text \<open>
  C7, as the code has it.  The test is on the variables \<^verbatim>\<open>group\<close> and \<^verbatim>\<open>name\<close> of
  \<^verbatim>\<open>addComponent\<close>: the group is \<^verbatim>\<open>pkg.group\<close> or else the scope the name parser finds
  in \<^verbatim>\<open>pkg.name\<close>, the name is the full name the parser finds or else \<^verbatim>\<open>pkg.name\<close>.  For
  \<^verbatim>\<open>npm\<close>, a record whose group is \<^verbatim>\<open>types\<close> or whose name starts with \<^verbatim>\<open>@types\<close> in
  this sense adds no component: the call returns the list as it is, and no component is
  built from the record.  The group is \<^verbatim>\<open>types\<close> for a record with \<^verbatim>\<open>group: "types"\<close> and
  for a record without a group whose name the parser puts in the scope \<^verbatim>\<open>types\<close> (as
  \<^verbatim>\<open>@types/node\<close>).  Every component of the output of \<^verbatim>\<open>listComponents\<close> is built from a
  record that is not of this kind, and has neither the group \<^verbatim>\<open>types\<close> nor a name that
  starts with \<^verbatim>\<open>@types\<close>.
\<close>

theorem types_packages_skipped:
  "(r < length h
      \<and> (group_of E (h ! r) = ''types'' \<or> prefix ''@types'' (name_of E (h ! r)))
      \<longrightarrow> addComponent (Suc n) E h ai r ''npm'' list False fmt = Inr list
          \<and> (\<forall>c. \<not> built_from E h ai ''npm'' fmt c r))
   \<and> (pkg_group p = Some ''types'' \<longrightarrow> group_of E p = ''types'')
   \<and> (\<not> truthy (pkg_group p) \<and> id_scope (parsePackageJsonName E (pkg_name p)) = Some ''types''
      \<longrightarrow> group_of E p = ''types'')
   \<and> (listComponents n E h ai pkg ''npm'' fmt = Inr out
      \<longrightarrow> (\<forall>i\<in>set out. c_group (item_component i) \<noteq> ''types''
                        \<and> \<not> prefix ''@types'' (c_name (item_component i))
                        \<and> (\<exists>r'. built_from E h ai ''npm'' fmt (item_component i) r'
                              \<and> group_of E (h ! r') \<noteq> ''types''
                              \<and> \<not> prefix ''@types'' (name_of E (h ! r')))))"
proof (intro conjI impI ballI allI)
  assume a: "r < length h
      \<and> (group_of E (h ! r) = ''types'' \<or> prefix ''@types'' (name_of E (h ! r)))"
  then have s: "skip_types E ''npm'' (h ! r)" by (simp add: skip_types_def)
  show "addComponent (Suc n) E h ai r ''npm'' list False fmt = Inr list"
    using a s by (intro skip_types_skipped) simp_all
  fix c show "\<not> built_from E h ai ''npm'' fmt c r" using s by (rule skip_types_not_built)
next
  assume "pkg_group p = Some ''types''"
  then show "group_of E p = ''types''" by (simp add: group_of_def js_or_def truthy_def)
next
  assume "\<not> truthy (pkg_group p) \<and> id_scope (parsePackageJsonName E (pkg_name p)) = Some ''types''"
  then show "group_of E p = ''types''" by (simp add: group_of_def js_or_def truthy_def)
next
  fix i assume a: "listComponents n E h ai pkg ''npm'' fmt = Inr out" "i \<in> set out"
  show "c_group (item_component i) \<noteq> ''types''"
    using listComponents_no_types[OF a] by simp
  show "\<not> prefix ''@types'' (c_name (item_component i))"
    using listComponents_no_types[OF a] by simp
  obtain r' where "built_from E h ai ''npm'' fmt (item_component i) r'"
    "\<not> skip_types E ''npm'' (h ! r')"
    using listComponents_not_skipped[OF a] by blast
  then show "\<exists>r'. built_from E h ai ''npm'' fmt (item_component i) r'
                              \<and> group_of E (h ! r') \<noteq> ''types''
                              \<and> \<not> prefix ''@types'' (name_of E (h ! r'))"
    by (intro exI[of _ r']) (simp add: skip_types_def)
qed

lemma example_types_resolved:
  "group_of example_collaborators (example_store ! 6) = ''types''"
  "pkg_name (example_store ! 6) = ''@types/node''"
  "pkg_group (example_store ! 6) = None"
  "id_scope (parsePackageJsonName example_collaborators (pkg_name (example_store ! 6)))
     = Some ''types''"
  "map_sum id purls
     (listComponents 4 example_collaborators example_store None
        (PkgArray [6, 5]) ''npm'' Xml) = Inr [''pkg:npm/d@1.0.0'']"
  by code_simp+

theorem types_packages_skipped_witness:
  "pkg_name (example_store ! 6) = ''@types/node''
   \<and> pkg_group (example_store ! 6) = None
   \<and> group_of example_collaborators (example_store ! 6) = ''types''
   \<and> addComponent 5 example_collaborators example_store None 6 ''npm'' [] False Xml = Inr []
   \<and> (\<exists>out. listComponents 4 example_collaborators example_store None (PkgArray [6, 5]) ''npm'' Xml
              = Inr out
            \<and> purls out = [''pkg:npm/d@1.0.0'']
            \<and> list_all (\<lambda>i. c_group (item_component i) \<noteq> ''types''
                        \<and> \<not> prefix ''@types'' (c_name (item_component i))) out)"
proof -
  obtain out where out:
    "listComponents 4 example_collaborators example_store None (PkgArray [6, 5]) ''npm'' Xml = Inr out"
    "purls out = [''pkg:npm/d@1.0.0'']"
    using example_types_resolved(5)
    by (cases "listComponents 4 example_collaborators example_store None (PkgArray [6, 5]) ''npm'' Xml")
      auto
  have len: "6 < length example_store" by (simp add: example_store_def)
  note t = types_packages_skipped[where r = 6 and h = example_store
        and E = example_collaborators and n = 4 and ai = None and list = "[]" and fmt = Xml
        and p = "example_store ! 6" and pkg = "PkgArray [6, 5]" and out = out]
  have g: "group_of example_collaborators (example_store ! 6) = ''types''"
    using t example_types_resolved(3,4) by (simp add: truthy_def)
  have a: "addComponent 5 example_collaborators example_store None 6 ''npm'' [] False Xml = Inr []"
    using t len g by simp
  have l: "list_all (\<lambda>i. c_group (item_component i) \<noteq> ''types''
                        \<and> \<not> prefix ''@types'' (c_name (item_component i))) out"
    using t out(1) by (simp add: list_all_iff)
  show ?thesis using example_types_resolved(2,3) g a l out by blast
qed

text \<open>
  C7 as stated fails for the group and the name of the record itself.  The name
  \<^verbatim>\<open>@typespec/compiler\<close> starts with \<^verbatim>\<open>@types\<close>, but the test sees the group \<^verbatim>\<open>typespec\<close>
  and the name \<^verbatim>\<open>compiler\<close>, and the record becomes a component.  So does the record
  \<^verbatim>\<open>@types/node\<close> that carries the group \<^verbatim>\<open>foo\<close>.
\<close>

theorem types_prefix_counterexample:
  "prefix ''@types'' ''@typespec/compiler''
   \<and> map_sum id purls
     (listComponents 2 example_collaborators [example_pkg ''@typespec/compiler'' ''0.50.0'']
        None (PkgArray [0]) ''npm'' Json)
     = Inr [''pkg:npm/typespec/compiler@0.50.0'']
   \<and> map_sum id purls
     (listComponents 2 example_collaborators
        [(example_pkg ''@types/node'' ''14.0.0'')\<lparr>pkg_group := Some ''foo''\<rparr>]
        None (PkgArray [0]) ''npm'' Json)
     = Inr [''pkg:npm/foo/node@14.0.0'']"
  by code_simp

section \<open>Extraneous packages\<close>

lemma extraneous_skipped:
  assumes "r < length h" "pkg_extraneous (h ! r)"
  shows "addComponent (Suc n) E h ai r ptype list isRoot fmt = Inr list"
  using assms by (simp add: addComponent_Suc)

text \<open>
  C8.  For a record flagged extraneous, \<^verbatim>\<open>addComponent\<close> returns the list as it is,
  whether the record is the root or not: no component is added and the dependencies
  are not visited.  Every component of the output of \<^verbatim>\<open>listComponents\<close> is built from a
  record that is not extraneous.
\<close>

theorem extraneous_excluded:
  "(r < length h \<and> pkg_extraneous (h ! r)
      \<longrightarrow> addComponent (Suc n) E h ai r ptype list isRoot fmt = Inr list)
   \<and> (listComponents n E h ai pkg ptype fmt = Inr out
      \<longrightarrow> (\<forall>i\<in>set out. \<exists>r'. r' < length h \<and> \<not> pkg_extraneous (h ! r')
                \<and> component_of E ai (h ! r') ptype fmt = Inr (Some (item_component i))))"
  using extraneous_skipped[of r h n E ai ptype list isRoot fmt]
    listComponents_provenance[of n E h ai pkg ptype fmt out]
  by (simp add: built_from_def)

lemma example_extraneous:
  "pkg_extraneous (example_store ! 7)"
  "children example_store 7 = [8]"
  "children example_store 0 = [1, 2, 6, 7]"
  by code_simp+

theorem extraneous_excluded_witness:
  "pkg_extraneous (example_store ! 7) \<and> children example_store 7 = [8]
   \<and> 7 \<in> set (children example_store 0)
   \<and> addComponent 5 example_collaborators example_store None 7 ''npm'' [] False Json = Inr []
   \<and> (\<exists>out. listComponents 4 example_collaborators example_store None (PkgObject 0) ''npm'' Json
              = Inr out
            \<and> purls out = [''pkg:npm/a@1.0.0'', ''pkg:npm/c@1.0.0'', ''pkg:npm/b@1.0.0'']
            \<and> list_all (\<lambda>i. \<exists>r'. r' < length example_store \<and> \<not> pkg_extraneous (example_store ! r')
                \<and> component_of example_collaborators None (example_store ! r') ''npm'' Json
                     = Inr (Some (item_component i))) out)"
proof -
  obtain out where out:
    "listComponents 4 example_collaborators example_store None (PkgObject 0) ''npm'' Json = Inr out"
    "purls out = [''pkg:npm/a@1.0.0'', ''pkg:npm/c@1.0.0'', ''pkg:npm/b@1.0.0'']"
    using example_walk
    by (cases "listComponents 4 example_collaborators example_store None (PkgObject 0) ''npm'' Json")
      auto
  have len: "7 < length example_store" by (simp add: example_store_def)
  show ?thesis
    using extraneous_excluded[where r = 7 and h = example_store and n = 4
        and E = example_collaborators and ai = None and ptype = "''npm''" and list = "[]"
        and isRoot = False and fmt = Json and pkg = "PkgObject 0" and out = out]
      out len example_extraneous
    by (auto simp: list_all_iff)
qed

section \<open>The root\<close>

lemma descendants_closed:
  assumes "r \<in> (dep_edges h)\<^sup>+ `` {root}" "r < length h" "r' \<in> set (children h r)"
  shows "r' \<in> (dep_edges h)\<^sup>+ `` {root}"
proof -
  have "(r, r') \<in> dep_edges h" using assms(2,3) by (simp add: dep_edges_def)
  then show ?thesis using assms(1) by (auto intro: trancl_into_trancl)
qed

lemma root_walk_provenance:
  assumes "root < length h"
    and "for_each (\<lambda>x l. addComponent m E h ai x ptype l False fmt) (children h root) [] = Inr l"
  shows "\<forall>e\<in>set l. \<exists>r\<in>(dep_edges h)\<^sup>+ `` {root}. built_from E h ai ptype fmt (snd e) r"
proof (rule visits_provenance[OF _ assms(2)])
  show "set (children h root) \<subseteq> (dep_edges h)\<^sup>+ `` {root}"
    using assms(1) by (auto simp: dep_edges_def)
qed (rule descendants_closed)

lemma root_visit:
  assumes "listComponents n E h ai (PkgObject root) ''npm'' fmt = Inr out"
  shows "\<forall>i\<in>set out. \<exists>r. (root, r) \<in> (dep_edges h)\<^sup>+
            \<and> built_from E h ai ''npm'' fmt (item_component i) r"
    and "\<exists>m. n = Suc m \<and> root < length h \<and>
           walk n E h ai (PkgObject root) ''npm'' fmt =
             (if pkg_extraneous (h ! root) then Inr []
              else for_each (\<lambda>x l. addComponent m E h ai x ''npm'' l False fmt)
                     (children h root) [])"
proof -
  from assms obtain l where l: "walk n E h ai (PkgObject root) ''npm'' fmt = Inr l"
    and out: "out = map (\<lambda>(k, c). case fmt of Xml \<Rightarrow> Wrapped c | Json \<Rightarrow> Bare c) l"
    by (auto simp: listComponents_Inr)
  have "(\<forall>e\<in>set l. \<exists>r. (root, r) \<in> (dep_edges h)\<^sup>+ \<and> built_from E h ai ''npm'' fmt (snd e) r)
      \<and> (\<exists>m. n = Suc m \<and> root < length h \<and>
           walk n E h ai (PkgObject root) ''npm'' fmt =
             (if pkg_extraneous (h ! root) then Inr []
              else for_each (\<lambda>x l. addComponent m E h ai x ''npm'' l False fmt)
                     (children h root) []))"
    using l
  proof (cases rule: walk_cases)
    case (1 rs)
    then show ?thesis by simp
  next
    case (2 r m)
    then show ?thesis using root_walk_provenance[of root h m E ai "''npm''" fmt l] l
      by (simp add: Image_def)
  next
    case (3 r)
    then show ?thesis using l by (cases n) (simp_all add: walk_def addComponent_0)
  qed
  then show "\<forall>i\<in>set out. \<exists>r. (root, r) \<in> (dep_edges h)\<^sup>+
            \<and> built_from E h ai ''npm'' fmt (item_component i) r"
    and "\<exists>m. n = Suc m \<and> root < length h \<and>
           walk n E h ai (PkgObject root) ''npm'' fmt =
             (if pkg_extraneous (h ! root) then Inr []
              else for_each (\<lambda>x l. addComponent m E h ai x ''npm'' l False fmt)
                     (children h root) [])"
    by (force simp: out item_component_of_item)+
qed

lemma single_record_first:
  assumes "ptype \<noteq> ''npm''" "built_from E h ai ptype fmt c root"
    and "listComponents n E h ai (PkgObject root) ptype fmt = Inr out"
  shows "out \<noteq> [] \<and> item_component (hd out) = c"
proof -
  from assms(3) obtain l where l: "walk n E h ai (PkgObject root) ptype fmt = Inr l"
    and out: "out = map (\<lambda>(k, c). case fmt of Xml \<Rightarrow> Wrapped c | Json \<Rightarrow> Bare c) l"
    by (auto simp: listComponents_Inr)
  have a: "addComponent n E h ai root ptype [] False fmt = Inr l"
    using l assms(1) by (simp add: walk_def)
  then obtain m where n: "n = Suc m" by (cases n) (simp_all add: addComponent_0)
  have "for_each (\<lambda>x l. addComponent m E h ai x ptype l False fmt) (children h root)
          [(c_purl c, c)] = Inr l"
    using a n assms(2) by (simp add: addComponent_Suc built_from_def has_key_def)
  then have "prefix [(c_purl c, c)] l" by (rule visits_extend)
  then obtain rest where "l = (c_purl c, c) # rest" by (auto simp: prefix_def)
  then show ?thesis by (simp add: out item_component_of_item)
qed

text \<open>
  C9, as the code has it.  For the ecosystem \<^verbatim>\<open>npm\<close> and one record as the argument,
  the visit of the root adds no component for it.  When the root is extraneous the
  list is empty; otherwise the walk is the loop over the records the root depends on,
  from the empty list.  Every component of the output is built from a record reached
  from the root through one dependency edge or more.  For any other ecosystem the one
  record is visited as a record that is not the root, and when it is not extraneous
  and turns into a component, this component is the first of the output.
\<close>

theorem root_is_not_a_component:
  "(listComponents n E h ai (PkgObject root) ''npm'' fmt = Inr out \<longrightarrow>
     (\<forall>i\<in>set out. \<exists>r. (root, r) \<in> (dep_edges h)\<^sup>+ \<and> r < length h
          \<and> \<not> pkg_extraneous (h ! r)
          \<and> component_of E ai (h ! r) ''npm'' fmt = Inr (Some (item_component i)))
     \<and> (\<exists>m. n = Suc m \<and> root < length h \<and>
           walk n E h ai (PkgObject root) ''npm'' fmt =
             (if pkg_extraneous (h ! root) then Inr []
              else for_each (\<lambda>x l. addComponent m E h ai x ''npm'' l False fmt)
                     (children h root) [])))
   \<and> (ptype \<noteq> ''npm'' \<longrightarrow>
        walk n E h ai (PkgObject root) ptype fmt
          = addComponent n E h ai root ptype [] False fmt)
   \<and> (ptype \<noteq> ''npm'' \<and> root < length h \<and> \<not> pkg_extraneous (h ! root)
        \<and> component_of E ai (h ! root) ptype fmt = Inr (Some c)
        \<and> listComponents n E h ai (PkgObject root) ptype fmt = Inr out'
      \<longrightarrow> out' \<noteq> [] \<and> item_component (hd out') = c)"
  using root_visit[of n E h ai root fmt out]
    single_record_first[of ptype E h ai fmt c root n out']
  by (simp add: built_from_def walk_def)

lemma single_maven_record:
  "map_sum id (map (\<lambda>i. c_purl (item_component i)))
     (listComponents 2 example_collaborators [example_pkg ''lib'' ''1.0.0''] None (PkgObject 0)
        ''maven'' Json) = Inr [''pkg:maven/lib@1.0.0'']"
  "map_sum id (map_option c_purl)
     (component_of example_collaborators None ([example_pkg ''lib'' ''1.0.0''] ! 0) ''maven'' Json)
     = Inr (Some ''pkg:maven/lib@1.0.0'')"
  "\<not> pkg_extraneous ([example_pkg ''lib'' ''1.0.0''] ! 0)"
  by code_simp+

theorem root_is_not_a_component_witness:
  "(\<exists>out. listComponents 4 example_collaborators example_store None (PkgObject 0) ''npm'' Json
            = Inr out
     \<and> purls out = [''pkg:npm/a@1.0.0'', ''pkg:npm/c@1.0.0'', ''pkg:npm/b@1.0.0'']
     \<and> list_all (\<lambda>i. \<exists>r. (0, r) \<in> (dep_edges example_store)\<^sup>+ \<and> r < length example_store
          \<and> \<not> pkg_extraneous (example_store ! r)
          \<and> component_of example_collaborators None (example_store ! r) ''npm'' Json
               = Inr (Some (item_component i))) out)
   \<and> (\<exists>out c. listComponents 2 example_collaborators [example_pkg ''lib'' ''1.0.0''] None
                 (PkgObject 0) ''maven'' Json = Inr out
        \<and> component_of example_collaborators None ([example_pkg ''lib'' ''1.0.0''] ! 0)
             ''maven'' Json = Inr (Some c)
        \<and> c_purl c = ''pkg:maven/lib@1.0.0''
        \<and> out \<noteq> [] \<and> item_component (hd out) = c)"
proof -
  obtain out where out:
    "listComponents 4 example_collaborators example_store None (PkgObject 0) ''npm'' Json = Inr out"
    "purls out = [''pkg:npm/a@1.0.0'', ''pkg:npm/c@1.0.0'', ''pkg:npm/b@1.0.0'']"
    using example_walk
    by (cases "listComponents 4 example_collaborators example_store None (PkgObject 0) ''npm'' Json")
      auto
  obtain out' where out':
    "listComponents 2 example_collaborators [example_pkg ''lib'' ''1.0.0''] None
                 (PkgObject 0) ''maven'' Json = Inr out'"
    using single_maven_record(1)
    by (cases "listComponents 2 example_collaborators [example_pkg ''lib'' ''1.0.0''] None
                 (PkgObject 0) ''maven'' Json") auto
  obtain c where c:
    "component_of example_collaborators None ([example_pkg ''lib'' ''1.0.0''] ! 0)
             ''maven'' Json = Inr (Some c)" "c_purl c = ''pkg:maven/lib@1.0.0''"
    using single_maven_record(2)
    by (cases "component_of example_collaborators None ([example_pkg ''lib'' ''1.0.0''] ! 0)
             ''maven'' Json") auto
  note t = root_is_not_a_component[where n = 4 and E = example_collaborators
      and h = example_store and ai = None and root = 0 and fmt = Json and out = out
      and ptype = "''npm''" and c = c and out' = out', THEN conjunct1, THEN mp, OF out(1)]
  note u = root_is_not_a_component[where n = 2 and E = example_collaborators
      and h = "[example_pkg ''lib'' ''1.0.0'']" and ai = None and root = 0 and fmt = Json
      and out = out and ptype = "''maven''" and c = c and out' = out',
      THEN conjunct2, THEN conjunct2, THEN mp]
  have first: "list_all (\<lambda>i. \<exists>r. (0, r) \<in> (dep_edges example_store)\<^sup>+ \<and> r < length example_store
          \<and> \<not> pkg_extraneous (example_store ! r)
          \<and> component_of example_collaborators None (example_store ! r) ''npm'' Json
               = Inr (Some (item_component i))) out"
    using t by (simp add: list_all_iff)
  have second: "out' \<noteq> [] \<and> item_component (hd out') = c"
    using u c(1) out' single_maven_record(3) by simp
  show ?thesis
  proof (rule conjI)
    show "\<exists>out. listComponents 4 example_collaborators example_store None (PkgObject 0) ''npm'' Json
            = Inr out
     \<and> purls out = [''pkg:npm/a@1.0.0'', ''pkg:npm/c@1.0.0'', ''pkg:npm/b@1.0.0'']
     \<and> list_all (\<lambda>i. \<exists>r. (0, r) \<in> (dep_edges example_store)\<^sup>+ \<and> r < length example_store
          \<and> \<not> pkg_extraneous (example_store ! r)
          \<and> component_of example_collaborators None (example_store ! r) ''npm'' Json
               = Inr (Some (item_component i))) out"
      using out first by (intro exI[of _ out] conjI)
    show "\<exists>out c. listComponents 2 example_collaborators [example_pkg ''lib'' ''1.0.0''] None
                 (PkgObject 0) ''maven'' Json = Inr out
        \<and> component_of example_collaborators None ([example_pkg ''lib'' ''1.0.0''] ! 0)
             ''maven'' Json = Inr (Some c)
        \<and> c_purl c = ''pkg:maven/lib@1.0.0''
        \<and> out \<noteq> [] \<and> item_component (hd out) = c"
      using out' c second by (intro exI[of _ out'] exI[of _ c]) simp
  qed
qed

text \<open>
  C9 as stated fails for every other ecosystem: \<^verbatim>\<open>isRootPkg\<close> is \<^verbatim>\<open>ptype === "npm"\<close>, so
  one record given for \<^verbatim>\<open>maven\<close> is visited as any other record and becomes a
  component, where the same record given for \<^verbatim>\<open>npm\<close> does not.  And for \<^verbatim>\<open>npm\<close>, a root
  that one of its dependencies links back to is visited a second time, as a record
  that is not the root, and becomes a component then.
\<close>

theorem root_of_other_ecosystem_counterexample:
  "map_sum id purls
     (listComponents 2 example_collaborators [example_pkg ''lib'' ''1.0.0''] None (PkgObject 0)
        ''maven'' Json)
   = Inr [''pkg:maven/lib@1.0.0'']
   \<and> map_sum id purls
     (listComponents 2 example_collaborators [example_pkg ''lib'' ''1.0.0''] None (PkgObject 0)
        ''npm'' Json)
   = Inr []
   \<and> map_sum id purls
     (listComponents 4 example_collaborators
        [with_deps (example_pkg ''app'' ''1.0.0'') [(''plugin'', DepRecord 1)],
         with_deps (example_pkg ''plugin'' ''1.0.0'') [(''app'', DepRecord 0)]]
        None (PkgObject 0) ''npm'' Json)
   = Inr [''pkg:npm/plugin@1.0.0'', ''pkg:npm/app@1.0.0'']"
  by code_simp

section \<open>The scope of a component\<close>

lemma compScope_cases:
  "(let scope = compScope ai g n hint in if truthy scope then scope else None) =
     (if ai \<noteq> None \<and> the ai \<noteq> [] then
        (if n \<in> fst ` set (the ai) \<or> g @ ''/'' @ n \<in> fst ` set (the ai)
            \<or> ''@'' @ g @ ''/'' @ n \<in> fst ` set (the ai)
            \<or> g \<in> fst ` set (the ai) \<or> ''@'' @ g \<in> fst ` set (the ai)
         then Some ''required'' else Some ''optional'')
      else if truthy hint then hint else None)"
  by (cases ai) (auto simp: compScope_def import_keys_def truthy_def Let_def)

lemma addComponent_new_entries:
  assumes "addComponent n E h ai r ptype list isRoot fmt = Inr list'"
  shows "\<forall>e\<in>set list'. e \<in> set list \<or> (\<exists>r'. built_from E h ai ptype fmt (snd e) r')"
proof -
  have call: "\<forall>e\<in>set m. e \<in> set l \<or>
        (\<exists>r\<in>UNIV. built_from E h ai ptype fmt (snd e) r
               \<and> set (dep_purls E h ai ptype fmt r) \<subseteq> fst ` set m)"
    if "addComponent k E h ai x ptype l False fmt = Inr m" for k x l m
    using _ that by (rule addComponent_sourced) simp_all
  show ?thesis
  proof (cases isRoot)
    case False
    then have "addComponent n E h ai r ptype list False fmt = Inr list'" using assms by simp
    then show ?thesis using call[of n r list list'] by blast
  next
    case True
    show ?thesis
    proof (cases n)
      case 0
      then show ?thesis using assms by (simp add: addComponent_0)
    next
      case (Suc k)
      have r: "r < length h" using assms Suc by (simp add: addComponent_Suc split: if_splits)
      show ?thesis
      proof (cases "pkg_extraneous (h ! r)")
        case True
        then show ?thesis using assms Suc r by (simp add: addComponent_Suc)
      next
        case False
        then have run: "for_each (\<lambda>x l. addComponent k E h ai x ptype l False fmt)
                     (children h r) list = Inr list'"
          using assms Suc r True by (simp add: addComponent_Suc)
        have "(\<forall>e\<in>set list'. e \<in> set list \<or>
           (\<exists>r\<in>UNIV. built_from E h ai ptype fmt (snd e) r
                  \<and> set (dep_purls E h ai ptype fmt r) \<subseteq> fst ` set list'))
         \<and> set (List.map_filter (purl_of E h ai ptype fmt) (children h r)) \<subseteq> fst ` set list'"
          using _ run
        proof (rule visits_sourced)
          fix x l m assume "addComponent k E h ai x ptype l False fmt = Inr m"
          then show "\<forall>e\<in>set m. e \<in> set l \<or>
        (\<exists>r\<in>UNIV. built_from E h ai ptype fmt (snd e) r
               \<and> set (dep_purls E h ai ptype fmt r) \<subseteq> fst ` set m)"
            by (rule call)
        qed simp
        then show ?thesis by blast
      qed
    qed
  qed
qed

lemma built_from_scope:
  assumes "built_from E h ai ptype fmt c r"
  shows "c_group c = group_of E (h ! r) \<and> c_name c = name_of E (h ! r)
     \<and> c_scope c =
        (if ai \<noteq> None \<and> the ai \<noteq> [] then
           (if c_name c \<in> fst ` set (the ai)
               \<or> c_group c @ ''/'' @ c_name c \<in> fst ` set (the ai)
               \<or> ''@'' @ c_group c @ ''/'' @ c_name c \<in> fst ` set (the ai)
               \<or> c_group c \<in> fst ` set (the ai)
               \<or> ''@'' @ c_group c \<in> fst ` set (the ai)
            then Some ''required'' else Some ''optional'')
         else if truthy (pkg_scope (h ! r)) then pkg_scope (h ! r) else None)"
proof -
  have c: "component_of E ai (h ! r) ptype fmt = Inr (Some c)"
    using assms by (simp add: built_from_def)
  show ?thesis
    using component_of_Some(3)[OF c] component_of_Some(4)[OF c] component_of_Some(5)[OF c]
    by (simp only: compScope_cases)
qed

text \<open>
  C4, as the code has it.  Every component of the output of \<^verbatim>\<open>listComponents\<close>, and
  every entry a call of \<^verbatim>\<open>addComponent\<close> adds to the list, is built from a record of the
  store, with the group and the name \<^verbatim>\<open>addComponent\<close> resolves for the record.  With an
  import map that is not empty its scope is \<^verbatim>\<open>required\<close> when one of \<^verbatim>\<open>name\<close>,
  \<^verbatim>\<open>group/name\<close>, \<^verbatim>\<open>@group/name\<close>, \<^verbatim>\<open>group\<close> and \<^verbatim>\<open>@group\<close> is a key of the map, and
  \<^verbatim>\<open>optional\<close> otherwise.  Without a map, or with an empty one, the scope is the
  \<^verbatim>\<open>scope\<close> of the record when that is truthy, and there is no scope otherwise.
\<close>

theorem scope_resolution:
  "(listComponents n E h ai pkg ptype fmt = Inr out \<longrightarrow>
      (\<forall>i\<in>set out. \<exists>r. r < length h \<and> \<not> pkg_extraneous (h ! r)
         \<and> component_of E ai (h ! r) ptype fmt = Inr (Some (item_component i))
         \<and> c_group (item_component i) = group_of E (h ! r)
         \<and> c_name (item_component i) = name_of E (h ! r)
         \<and> c_scope (item_component i) =
            (if ai \<noteq> None \<and> the ai \<noteq> [] then
               (if c_name (item_component i) \<in> fst ` set (the ai)
                   \<or> c_group (item_component i) @ ''/'' @ c_name (item_component i)
                       \<in> fst ` set (the ai)
                   \<or> ''@'' @ c_group (item_component i) @ ''/'' @ c_name (item_component i)
                       \<in> fst ` set (the ai)
                   \<or> c_group (item_component i) \<in> fst ` set (the ai)
                   \<or> ''@'' @ c_group (item_component i) \<in> fst ` set (the ai)
                then Some ''required'' else Some ''optional'')
             else if truthy (pkg_scope (h ! r)) then pkg_scope (h ! r) else None)))
   \<and> (addComponent n E h ai x ptype list isRoot fmt = Inr list' \<longrightarrow>
      (\<forall>e\<in>set list'. e \<in> set list \<or>
         (\<exists>r. r < length h \<and> \<not> pkg_extraneous (h ! r)
           \<and> component_of E ai (h ! r) ptype fmt = Inr (Some (snd e))
           \<and> c_scope (snd e) =
              (if ai \<noteq> None \<and> the ai \<noteq> [] then
                 (if c_name (snd e) \<in> fst ` set (the ai)
                     \<or> c_group (snd e) @ ''/'' @ c_name (snd e) \<in> fst ` set (the ai)
                     \<or> ''@'' @ c_group (snd e) @ ''/'' @ c_name (snd e) \<in> fst ` set (the ai)
                     \<or> c_group (snd e) \<in> fst ` set (the ai)
                     \<or> ''@'' @ c_group (snd e) \<in> fst ` set (the ai)
                  then Some ''required'' else Some ''optional'')
               else if truthy (pkg_scope (h ! r)) then pkg_scope (h ! r) else None))))"
proof (intro conjI impI ballI)
  fix i assume "listComponents n E h ai pkg ptype fmt = Inr out" "i \<in> set out"
  then obtain r where r: "built_from E h ai ptype fmt (item_component i) r"
    using listComponents_provenance by blast
  show "\<exists>r. r < length h \<and> \<not> pkg_extraneous (h ! r)
         \<and> component_of E ai (h ! r) ptype fmt = Inr (Some (item_component i))
         \<and> c_group (item_component i) = group_of E (h ! r)
         \<and> c_name (item_component i) = name_of E (h ! r)
         \<and> c_scope (item_component i) =
            (if ai \<noteq> None \<and> the ai \<noteq> [] then
               (if c_name (item_component i) \<in> fst ` set (the ai)
                   \<or> c_group (item_component i) @ ''/'' @ c_name (item_component i)
                       \<in> fst ` set (the ai)
                   \<or> ''@'' @ c_group (item_component i) @ ''/'' @ c_name (item_component i)
                       \<in> fst ` set (the ai)
                   \<or> c_group (item_component i) \<in> fst ` set (the ai)
                   \<or> ''@'' @ c_group (item_component i) \<in> fst ` set (the ai)
                then Some ''required'' else Some ''optional'')
             else if truthy (pkg_scope (h ! r)) then pkg_scope (h ! r) else None)"
    using built_from_scope[OF r] r by (intro exI[of _ r]) (simp add: built_from_def)
next
  fix e assume "addComponent n E h ai x ptype list isRoot fmt = Inr list'" "e \<in> set list'"
  then have "e \<in> set list \<or> (\<exists>r. built_from E h ai ptype fmt (snd e) r)"
    using addComponent_new_entries by blast
  then show "e \<in> set list \<or>
         (\<exists>r. r < length h \<and> \<not> pkg_extraneous (h ! r)
           \<and> component_of E ai (h ! r) ptype fmt = Inr (Some (snd e))
           \<and> c_scope (snd e) =
              (if ai \<noteq> None \<and> the ai \<noteq> [] then
                 (if c_name (snd e) \<in> fst ` set (the ai)
                     \<or> c_group (snd e) @ ''/'' @ c_name (snd e) \<in> fst ` set (the ai)
                     \<or> ''@'' @ c_group (snd e) @ ''/'' @ c_name (snd e) \<in> fst ` set (the ai)
                     \<or> c_group (snd e) \<in> fst ` set (the ai)
                     \<or> ''@'' @ c_group (snd e) \<in> fst ` set (the ai)
                  then Some ''required'' else Some ''optional'')
               else if truthy (pkg_scope (h ! r)) then pkg_scope (h ! r) else None))"
  proof
    assume "e \<in> set list"
    then show ?thesis by simp
  next
    assume "\<exists>r. built_from E h ai ptype fmt (snd e) r"
    then obtain r where r: "built_from E h ai ptype fmt (snd e) r" by blast
    have "\<exists>r. r < length h \<and> \<not> pkg_extraneous (h ! r)
           \<and> component_of E ai (h ! r) ptype fmt = Inr (Some (snd e))
           \<and> c_scope (snd e) =
              (if ai \<noteq> None \<and> the ai \<noteq> [] then
                 (if c_name (snd e) \<in> fst ` set (the ai)
                     \<or> c_group (snd e) @ ''/'' @ c_name (snd e) \<in> fst ` set (the ai)
                     \<or> ''@'' @ c_group (snd e) @ ''/'' @ c_name (snd e) \<in> fst ` set (the ai)
                     \<or> c_group (snd e) \<in> fst ` set (the ai)
                     \<or> ''@'' @ c_group (snd e) \<in> fst ` set (the ai)
                  then Some ''required'' else Some ''optional'')
               else if truthy (pkg_scope (h ! r)) then pkg_scope (h ! r) else None)"
      using built_from_scope[OF r] r by (intro exI[of _ r]) (simp add: built_from_def)
    then show ?thesis by (rule disjI2)
  qed
qed

lemma pads_scopes:
  "map_sum id (map (\<lambda>i. (c_name (item_component i), c_scope (item_component i))))
     (listComponents 2 example_collaborators pads_store (Some [(''left-pad'', 1)])
        (PkgArray [0, 1]) ''npm'' Json)
   = Inr [(''left-pad'', Some ''required''), (''right-pad'', Some ''optional'')]"
  "map_sum id (map (\<lambda>i. (c_name (item_component i), c_scope (item_component i))))
     (listComponents 2 example_collaborators pads_store None (PkgArray [0, 1]) ''npm'' Json)
   = Inr [(''left-pad'', None), (''right-pad'', None)]"
  by code_simp+

theorem scope_resolution_witness:
  "(\<exists>out. listComponents 2 example_collaborators pads_store (Some [(''left-pad'', 1)])
            (PkgArray [0, 1]) ''npm'' Json = Inr out
        \<and> map (\<lambda>i. (c_name (item_component i), c_scope (item_component i))) out
            = [(''left-pad'', Some ''required''), (''right-pad'', Some ''optional'')]
        \<and> list_all (\<lambda>i. \<exists>r. r < length pads_store
            \<and> component_of example_collaborators (Some [(''left-pad'', 1)]) (pads_store ! r)
                 ''npm'' Json = Inr (Some (item_component i))
            \<and> c_name (item_component i) = name_of example_collaborators (pads_store ! r)) out)
   \<and> (\<exists>out. listComponents 2 example_collaborators pads_store None
            (PkgArray [0, 1]) ''npm'' Json = Inr out
        \<and> map (\<lambda>i. (c_name (item_component i), c_scope (item_component i))) out
            = [(''left-pad'', None), (''right-pad'', None)])"
proof -
  obtain out where out:
    "listComponents 2 example_collaborators pads_store (Some [(''left-pad'', 1)])
            (PkgArray [0, 1]) ''npm'' Json = Inr out"
    "map (\<lambda>i. (c_name (item_component i), c_scope (item_component i))) out
            = [(''left-pad'', Some ''required''), (''right-pad'', Some ''optional'')]"
    using pads_scopes(1)
    by (cases "listComponents 2 example_collaborators pads_store (Some [(''left-pad'', 1)])
            (PkgArray [0, 1]) ''npm'' Json") auto
  obtain out' where out':
    "listComponents 2 example_collaborators pads_store None (PkgArray [0, 1]) ''npm'' Json
       = Inr out'"
    "map (\<lambda>i. (c_name (item_component i), c_scope (item_component i))) out'
            = [(''left-pad'', None), (''right-pad'', None)]"
    using pads_scopes(2)
    by (cases "listComponents 2 example_collaborators pads_store None (PkgArray [0, 1])
           ''npm'' Json") auto
  note t = scope_resolution[where n = 2 and E = example_collaborators and h = pads_store
          and ai = "Some [(''left-pad'', 1)]" and pkg = "PkgArray [0, 1]" and ptype = "''npm''"
          and fmt = Json and out = out and x = 0 and list = "[]" and isRoot = False
          and list' = "[]", THEN conjunct1, THEN mp, OF out(1)]
  have l: "list_all (\<lambda>i. \<exists>r. r < length pads_store
            \<and> component_of example_collaborators (Some [(''left-pad'', 1)]) (pads_store ! r)
                 ''npm'' Json = Inr (Some (item_component i))
            \<and> c_name (item_component i) = name_of example_collaborators (pads_store ! r)) out"
    unfolding list_all_iff
  proof
    fix i assume "i \<in> set out"
    from t[THEN bspec, OF this] obtain r where "r < length pads_store"
      "component_of example_collaborators (Some [(''left-pad'', 1)]) (pads_store ! r)
                 ''npm'' Json = Inr (Some (item_component i))"
      "c_name (item_component i) = name_of example_collaborators (pads_store ! r)"
      by (elim exE conjE)
    then show "\<exists>r. r < length pads_store
            \<and> component_of example_collaborators (Some [(''left-pad'', 1)]) (pads_store ! r)
                 ''npm'' Json = Inr (Some (item_component i))
            \<and> c_name (item_component i) = name_of example_collaborators (pads_store ! r)"
      by (intro exI[of _ r] conjI)
  qed
  show ?thesis
  proof (rule conjI)
    show "\<exists>out. listComponents 2 example_collaborators pads_store (Some [(''left-pad'', 1)])
            (PkgArray [0, 1]) ''npm'' Json = Inr out
        \<and> map (\<lambda>i. (c_name (item_component i), c_scope (item_component i))) out
            = [(''left-pad'', Some ''required''), (''right-pad'', Some ''optional'')]
        \<and> list_all (\<lambda>i. \<exists>r. r < length pads_store
            \<and> component_of example_collaborators (Some [(''left-pad'', 1)]) (pads_store ! r)
                 ''npm'' Json = Inr (Some (item_component i))
            \<and> c_name (item_component i) = name_of example_collaborators (pads_store ! r)) out"
      using out l by (intro exI[of _ out] conjI)
    show "\<exists>out. listComponents 2 example_collaborators pads_store None
            (PkgArray [0, 1]) ''npm'' Json = Inr out
        \<and> map (\<lambda>i. (c_name (item_component i), c_scope (item_component i))) out
            = [(''left-pad'', None), (''right-pad'', None)]"
      using out' by (intro exI[of _ out'] conjI)
  qed
qed

text \<open>
  C4 as stated fails in two places.  The component \<^verbatim>\<open>core\<close> of the group \<^verbatim>\<open>babel\<close> is
  \<^verbatim>\<open>required\<close> by the map \<^verbatim>\<open>{"babel": 1}\<close>, where neither \<^verbatim>\<open>core\<close> nor \<^verbatim>\<open>@babel/core\<close> is a
  key.  And without any import map, a record that carries \<^verbatim>\<open>scope: "optional"\<close> gives a
  component with that scope.
\<close>

theorem scope_other_keys_counterexample:
  "map_sum id (map (\<lambda>e. (c_group (snd e), c_name (snd e), c_scope (snd e))))
     (addComponent 1 example_collaborators
        [(example_pkg ''core'' ''7.0.0'')\<lparr>pkg_group := Some ''babel''\<rparr>]
        (Some [(''babel'', 1)]) 0 ''npm'' [] False Json)
   = Inr [(''babel'', ''core'', Some ''required'')]
   \<and> map_sum id (map (\<lambda>e. (c_name (snd e), c_scope (snd e))))
     (addComponent 1 example_collaborators
        [(example_pkg ''left-pad'' ''1.3.0'')\<lparr>pkg_scope := Some ''optional''\<rparr>]
        None 0 ''npm'' [] False Json)
   = Inr [(''left-pad'', Some ''optional'')]"
  by code_simp

section \<open>The BOM: the call of the callback\<close>

lemma buildBomString_Some:
  "buildBomString n E env h det pkgInfo ptype (Some ctx) =
     (case listComponents n E h (Some (imports_of ctx)) pkgInfo ptype Xml of
        Inl e \<Rightarrow> Inl e
      | Inr components \<Rightarrow>
          if components \<noteq> [] then
            (case listComponents n E h (Some (imports_of ctx)) pkgInfo ptype Json of
               Inl e \<Rightarrow> Inl e
             | Inr jsonComponents \<Rightarrow>
                 Inr (Bom (bom_tree E env det ctx components) (json_tpl E env det jsonComponents)
                        (case ctx_nsMapping ctx of None \<Rightarrow> [] | Some m \<Rightarrow> m)))
          else Inr NoArguments)"
  unfolding buildBomString_def bom_tree_def json_tpl_def imports_of_def Let_def
  by simp

lemma buildBomString_Bom:
  assumes "buildBomString n E env h det pkgInfo ptype ctxt = Inr (Bom x j ns)"
  obtains ctx components jsonComponents where "ctxt = Some ctx"
    and "listComponents n E h (Some (imports_of ctx)) pkgInfo ptype Xml = Inr components"
    and "components \<noteq> []"
    and "listComponents n E h (Some (imports_of ctx)) pkgInfo ptype Json = Inr jsonComponents"
    and "x = bom_tree E env det ctx components"
    and "j = json_tpl E env det jsonComponents"
    and "ns = (case ctx_nsMapping ctx of None \<Rightarrow> [] | Some m \<Rightarrow> m)"
proof (cases ctxt)
  case None
  then show ?thesis using assms by (simp add: buildBomString_def)
next
  case (Some ctx)
  show ?thesis
  proof (cases "listComponents n E h (Some (imports_of ctx)) pkgInfo ptype Xml")
    case (Inl e)
    then show ?thesis using assms Some by (simp add: buildBomString_Some)
  next
    case xml: (Inr components)
    show ?thesis
    proof (cases "listComponents n E h (Some (imports_of ctx)) pkgInfo ptype Json")
      case (Inl e)
      then show ?thesis using assms Some xml by (simp add: buildBomString_Some split: if_splits)
    next
      case (Inr jsonComponents)
      then show ?thesis using assms Some xml that[of ctx components jsonComponents]
        by (simp add: buildBomString_Some split: if_splits)
    qed
  qed
qed

lemma buildBomString_NoArguments:
  assumes "buildBomString n E env h det pkgInfo ptype ctxt = Inr NoArguments"
  shows "\<exists>ctx. ctxt = Some ctx \<and>
            listComponents n E h (Some (imports_of ctx)) pkgInfo ptype Xml = Inr []"
proof (cases ctxt)
  case None
  then show ?thesis using assms by (simp add: buildBomString_def)
next
  case (Some ctx)
  show ?thesis
  proof (cases "listComponents n E h (Some (imports_of ctx)) pkgInfo ptype Xml")
    case (Inl e)
    then show ?thesis using assms Some by (simp add: buildBomString_Some)
  next
    case xml: (Inr components)
    show ?thesis
    proof (cases "listComponents n E h (Some (imports_of ctx)) pkgInfo ptype Json")
      case (Inl e)
      then show ?thesis using assms Some xml by (simp add: buildBomString_Some split: if_splits)
    next
      case (Inr jsonComponents)
      then show ?thesis using assms Some xml
        by (simp add: buildBomString_Some split: if_splits)
    qed
  qed
qed

lemma buildBomString_deterministic:
  assumes "buildBomString n E env h True pkgInfo ptype ctxt = Inr (Bom x j ns)"
  shows "x_serialNumber x = None"
    and "m_timestamp (x_metadata x) = ''2022-06-03T09:34:10.062Z''"
    and "m_timestamp (j_metadata j) = ''2022-06-03T09:34:10.062Z''"
    and "j_serialNumber j = ''urn:uuid:'' @ env_uuidv4 env"
    and "buildBomString n E env' h True pkgInfo ptype ctxt
           = Inr (Bom x (j\<lparr>j_serialNumber := ''urn:uuid:'' @ env_uuidv4 env'\<rparr>) ns)"
proof -
  from assms obtain ctx components jsonComponents where b: "ctxt = Some ctx"
    "listComponents n E h (Some (imports_of ctx)) pkgInfo ptype Xml = Inr components"
    "components \<noteq> []"
    "listComponents n E h (Some (imports_of ctx)) pkgInfo ptype Json = Inr jsonComponents"
    "x = bom_tree E env True ctx components"
    "j = json_tpl E env True jsonComponents"
    "ns = (case ctx_nsMapping ctx of None \<Rightarrow> [] | Some m \<Rightarrow> m)"
    by (rule buildBomString_Bom)
  show "x_serialNumber x = None" by (simp add: b(5) bom_tree_def)
  show "m_timestamp (x_metadata x) = ''2022-06-03T09:34:10.062Z''"
    by (simp add: b(5) bom_tree_def addMetadata_def)
  show "m_timestamp (j_metadata j) = ''2022-06-03T09:34:10.062Z''"
    by (simp add: b(6) json_tpl_def addMetadata_def)
  show "j_serialNumber j = ''urn:uuid:'' @ env_uuidv4 env"
    by (simp add: b(6) json_tpl_def)
  have x: "bom_tree E env' True ctx components = x"
    by (simp add: b(5) bom_tree_def addMetadata_def)
  have j: "json_tpl E env' True jsonComponents
             = j\<lparr>j_serialNumber := ''urn:uuid:'' @ env_uuidv4 env'\<rparr>"
    by (simp add: b(6) json_tpl_def addMetadata_def)
  show "buildBomString n E env' h True pkgInfo ptype ctxt
           = Inr (Bom x (j\<lparr>j_serialNumber := ''urn:uuid:'' @ env_uuidv4 env'\<rparr>) ns)"
    using b(1-4,7) x j by (simp add: buildBomString_Some)
qed

lemma example_bom:
  "(case buildBomString 4 example_collaborators first_run example_store True (PkgObject 0)
           ''npm'' (Some example_context)
    of Inr (Bom x j ns) \<Rightarrow> True | _ \<Rightarrow> False)"
  by code_simp

lemma example_bom_exists:
  obtains x j ns where
    "buildBomString 4 example_collaborators first_run example_store True (PkgObject 0)
       ''npm'' (Some example_context) = Inr (Bom x j ns)"
  using example_bom
  by (cases "buildBomString 4 example_collaborators first_run example_store True (PkgObject 0)
       ''npm'' (Some example_context)")
    (auto split: callback.splits)

section \<open>The deterministic flag\<close>

text \<open>
  C3 against the code.  With the deterministic flag set, the XML document has no
  serial number and both documents carry the fixed timestamp; but the JSON document
  carries \<^verbatim>\<open>urn:uuid:\<close> followed by the value \<^verbatim>\<open>uuidv4()\<close> returned in this run.  A
  second run on the same input gives the same XML document and a JSON document that
  differs in the serial number.
\<close>

theorem deterministic_json_serial_number:
  "buildBomString n E env h True pkgInfo ptype ctxt = Inr (Bom x j ns) \<Longrightarrow>
     x_serialNumber x = None
     \<and> m_timestamp (x_metadata x) = ''2022-06-03T09:34:10.062Z''
     \<and> m_timestamp (j_metadata j) = ''2022-06-03T09:34:10.062Z''
     \<and> j_serialNumber j = ''urn:uuid:'' @ env_uuidv4 env
     \<and> buildBomString n E env' h True pkgInfo ptype ctxt
           = Inr (Bom x (j\<lparr>j_serialNumber := ''urn:uuid:'' @ env_uuidv4 env'\<rparr>) ns)"
  using buildBomString_deterministic(1-4)[of n E env h pkgInfo ptype ctxt x j ns]
    buildBomString_deterministic(5)[where env' = env' and env = env]
  by blast

theorem deterministic_json_serial_number_witness:
  "\<exists>x j j' ns.
     buildBomString 4 example_collaborators first_run example_store True (PkgObject 0)
       ''npm'' (Some example_context) = Inr (Bom x j ns)
     \<and> buildBomString 4 example_collaborators second_run example_store True (PkgObject 0)
       ''npm'' (Some example_context) = Inr (Bom x j' ns)
     \<and> x_serialNumber x = None
     \<and> j_serialNumber j = ''urn:uuid:3e671687-395b-41f5-a30f-a58921a69b79''
     \<and> j_serialNumber j' = ''urn:uuid:9b1deb4d-3b7d-4bad-9bdd-2b0d7b3dcb6d''
     \<and> j \<noteq> j'"
proof -
  obtain x j ns where b:
    "buildBomString 4 example_collaborators first_run example_store True (PkgObject 0)
       ''npm'' (Some example_context) = Inr (Bom x j ns)"
    by (rule example_bom_exists)
  let ?j' = "j\<lparr>j_serialNumber := ''urn:uuid:'' @ env_uuidv4 second_run\<rparr>"
  note t = deterministic_json_serial_number[OF b, where env' = second_run]
  have s: "j_serialNumber j = ''urn:uuid:3e671687-395b-41f5-a30f-a58921a69b79''"
    "j_serialNumber ?j' = ''urn:uuid:9b1deb4d-3b7d-4bad-9bdd-2b0d7b3dcb6d''"
    using t by (simp_all add: first_run_def second_run_def)
  have "j \<noteq> ?j'"
  proof
    assume "j = ?j'"
    then have "j_serialNumber j = j_serialNumber ?j'" by simp
    then show False using s by simp
  qed
  then show ?thesis
    using t b s by blast
qed

section \<open>An empty component list\<close>

text \<open>
  C10.  When the XML component list is empty, \<^verbatim>\<open>buildBomString\<close> calls the callback
  with no arguments.  When it calls the callback with the documents, the component
  list of the XML document is the list \<^verbatim>\<open>listComponents\<close> returned and is not empty.
  When it calls the callback with no arguments, that list was empty.
\<close>

theorem empty_list_no_arguments:
  "(listComponents n E h (Some (imports_of ctx)) pkgInfo ptype Xml = Inr []
      \<longrightarrow> buildBomString n E env h det pkgInfo ptype (Some ctx) = Inr NoArguments)
   \<and> (buildBomString n E env h det pkgInfo ptype ctxt = Inr (Bom x j ns)
      \<longrightarrow> x_components x \<noteq> [] \<and>
         (\<exists>ctx. ctxt = Some ctx \<and>
            listComponents n E h (Some (imports_of ctx)) pkgInfo ptype Xml = Inr (x_components x)))
   \<and> (buildBomString n E env h det pkgInfo ptype ctxt = Inr NoArguments
      \<longrightarrow> (\<exists>ctx. ctxt = Some ctx \<and>
            listComponents n E h (Some (imports_of ctx)) pkgInfo ptype Xml = Inr []))"
proof (intro conjI impI)
  assume "listComponents n E h (Some (imports_of ctx)) pkgInfo ptype Xml = Inr []"
  then show "buildBomString n E env h det pkgInfo ptype (Some ctx) = Inr NoArguments"
    by (simp add: buildBomString_Some)
next
  assume a: "buildBomString n E env h det pkgInfo ptype ctxt = Inr (Bom x j ns)"
  from a show "x_components x \<noteq> []"
    by (rule buildBomString_Bom) (simp add: bom_tree_def)
  from a show "\<exists>ctx. ctxt = Some ctx \<and>
            listComponents n E h (Some (imports_of ctx)) pkgInfo ptype Xml = Inr (x_components x)"
    by (rule buildBomString_Bom) (simp add: bom_tree_def)
next
  assume "buildBomString n E env h det pkgInfo ptype ctxt = Inr NoArguments"
  then show "\<exists>ctx. ctxt = Some ctx \<and>
            listComponents n E h (Some (imports_of ctx)) pkgInfo ptype Xml = Inr []"
    by (rule buildBomString_NoArguments)
qed

lemma example_empty:
  "listComponents 4 example_collaborators example_store (Some (imports_of example_context))
     (PkgArray [6, 7]) ''npm'' Xml = Inr []"
  by code_simp

theorem empty_list_no_arguments_witness:
  "listComponents 4 example_collaborators example_store (Some (imports_of example_context))
     (PkgArray [6, 7]) ''npm'' Xml = Inr []
   \<and> buildBomString 4 example_collaborators first_run example_store False (PkgArray [6, 7])
       ''npm'' (Some example_context) = Inr NoArguments
   \<and> (\<exists>x j ns. buildBomString 4 example_collaborators first_run example_store True (PkgObject 0)
       ''npm'' (Some example_context) = Inr (Bom x j ns) \<and> x_components x \<noteq> [])"
proof -
  obtain x j ns where b:
    "buildBomString 4 example_collaborators first_run example_store True (PkgObject 0)
       ''npm'' (Some example_context) = Inr (Bom x j ns)"
    by (rule example_bom_exists)
  show ?thesis
    using empty_list_no_arguments[where n = 4 and E = example_collaborators
        and h = example_store and ctx = example_context and pkgInfo = "PkgArray [6, 7]"
        and ptype = "''npm''" and env = first_run and det = False and ctxt = None]
      empty_list_no_arguments[where n = 4 and E = example_collaborators
        and h = example_store and ctx = example_context and pkgInfo = "PkgObject 0"
        and ptype = "''npm''" and env = first_run and det = True
        and ctxt = "Some example_context" and x = x and j = j and ns = ns]
      example_empty b
    by blast
qed

end
